theory Spec2Isabelle
  imports Complex_Main "HOL-Library.Monad_Syntax"
begin

section \<open>Object store\<close>

text \<open>
  Python lists, sets and dictionaries are mutable objects that a program reaches through
  references. The notebooks' functions are modelled over an explicit store: a list of
  objects, a reference being an index into it. Allocation appends, so the reference of a
  new object is the length of the store before the allocation, and no reference that was
  valid before denotes the new object.
\<close>

type_synonym ref = nat

type_synonym 'o heap = "'o list"

definition alloc :: "'o heap \<Rightarrow> 'o \<Rightarrow> 'o heap \<times> ref" where
  "alloc h ob = (h @ [ob], length h)"

definition deref :: "'o heap \<Rightarrow> ref \<Rightarrow> 'o option" where
  "deref h r = (if r < length h then Some (h ! r) else None)"

definition assign :: "'o heap \<Rightarrow> ref \<Rightarrow> 'o \<Rightarrow> 'o heap" where
  "assign h r ob = h[r := ob]"

text \<open>
  \<open>extends h h'\<close>: the store \<open>h'\<close> holds every object of \<open>h\<close>, unchanged, at
  its reference, and possibly new objects after them.
\<close>

definition extends :: "'o heap \<Rightarrow> 'o heap \<Rightarrow> bool" where
  "extends h h' = (take (length h) h' = h)"

section \<open>Sets notebook: \<open>compare_features\<close>\<close>

text \<open>
  \<^verbatim>\<open>
  def compare_features(version1_features: List[str], version2_features: List[str]) -> ComparisonResult:
      set_v1: FeatureSet = set(version1_features)
      set_v2: FeatureSet = set(version2_features)
      common_features: FeatureSet = set_v1.intersection(set_v2)
      unique_to_v1: FeatureSet = set_v1.difference(set_v2)
      unique_to_v2: FeatureSet = set_v2.difference(set_v1)
      return common_features, unique_to_v1, unique_to_v2
  \<close>
  The objects of this notebook's store are lists of strings and sets of strings.
  \<open>set(x)\<close> builds a new set from any iterable; \<open>a.intersection(b)\<close> and
  \<open>a.difference(b)\<close> are methods of a set \<open>a\<close>, take any iterable \<open>b\<close> and
  build a new set. A call on a reference that denotes no object, or a set method on a list,
  has no result (\<open>None\<close>).
\<close>

datatype sobj = SList "string list" | SSet "string set"

fun elems :: "sobj \<Rightarrow> string set" where
  "elems (SList xs) = set xs"
| "elems (SSet s) = s"

definition set_new :: "sobj heap \<Rightarrow> ref \<Rightarrow> (sobj heap \<times> ref) option" where
  "set_new h r =
     (case deref h r of
        None \<Rightarrow> None
      | Some ob \<Rightarrow> Some (alloc h (SSet (elems ob))))"

definition intersection :: "sobj heap \<Rightarrow> ref \<Rightarrow> ref \<Rightarrow> (sobj heap \<times> ref) option" where
  "intersection h a b =
     (case deref h a of
        Some (SSet s) \<Rightarrow>
          (case deref h b of
             None \<Rightarrow> None
           | Some ob \<Rightarrow> Some (alloc h (SSet (s \<inter> elems ob))))
      | _ \<Rightarrow> None)"

definition difference :: "sobj heap \<Rightarrow> ref \<Rightarrow> ref \<Rightarrow> (sobj heap \<times> ref) option" where
  "difference h a b =
     (case deref h a of
        Some (SSet s) \<Rightarrow>
          (case deref h b of
             None \<Rightarrow> None
           | Some ob \<Rightarrow> Some (alloc h (SSet (s - elems ob))))
      | _ \<Rightarrow> None)"

definition compare_features ::
  "sobj heap \<Rightarrow> ref \<Rightarrow> ref \<Rightarrow> (sobj heap \<times> (ref \<times> ref \<times> ref)) option" where
  "compare_features h version1_features version2_features =
     do {
       (h1, set_v1) \<leftarrow> set_new h version1_features;
       (h2, set_v2) \<leftarrow> set_new h1 version2_features;
       (h3, common_features) \<leftarrow> intersection h2 set_v1 set_v2;
       (h4, unique_to_v1) \<leftarrow> difference h3 set_v1 set_v2;
       (h5, unique_to_v2) \<leftarrow> difference h4 set_v2 set_v1;
       Some (h5, (common_features, unique_to_v1, unique_to_v2))
     }"

section \<open>Itertools notebook: \<open>generate_pairings\<close>\<close>

text \<open>
  \<^verbatim>\<open>
  def generate_pairings(teams: List[str]) -> List[TeamPairing]:
      if len(teams) < 2:
          return [] # Cannot form pairs with less than 2 teams
      pairings_iterator: Iterator[TeamPairing] = combinations(teams, 2)
      return list(pairings_iterator)
  \<close>
  \<open>itertools.combinations(iterable, r)\<close> yields the \<open>r\<close>-length subsequences of the
  input as tuples, in lexicographic order of the positions of their elements: first those
  that start with the first element, then those that do not. A tuple is modelled as the
  list of its components.
\<close>

fun combinations :: "'a list \<Rightarrow> nat \<Rightarrow> 'a list list" where
  "combinations xs 0 = [[]]"
| "combinations [] (Suc r) = []"
| "combinations (x # xs) (Suc r) = map ((#) x) (combinations xs r) @ combinations xs (Suc r)"

definition generate_pairings :: "string list \<Rightarrow> string list list" where
  "generate_pairings teams =
     (if length teams < 2 then [] else combinations teams 2)"

section \<open>Values, exceptions and printing\<close>

text \<open>
  The scalar values the notebooks store in dictionaries and pass as arguments:
  \<open>None\<close>, booleans, integers (unbounded) and strings.
\<close>

datatype val = VNone | VBool bool | VInt int | VStr string

text \<open>
  Why a call fails to bind its arguments: a keyword given twice, a keyword that is no
  parameter, too many positional arguments (how many the function takes, how many were
  given, how many keyword-only arguments were given), required keyword-only parameters left
  without a value.
\<close>

datatype call_error =
    MultipleValues string
  | UnexpectedKeyword string
  | TooManyPositional nat nat nat
  | MissingKeywordOnly "string list"

text \<open>
  The exceptions: \<open>KeyError\<close> with the missing key, \<open>TypeError\<close> of a call with the
  function's name and the reason, \<open>ValueError\<close> of converting to a string an integer
  that has more digits than the interpreter allows.
\<close>

datatype error = KeyError string | TypeError string call_error | ValueError

definition bind_err :: "error + 'a \<Rightarrow> ('a \<Rightarrow> error + 'b) \<Rightarrow> error + 'b" where
  "bind_err m f = (case m of Inl e \<Rightarrow> Inl e | Inr x \<Rightarrow> f x)"

text \<open>
  The decimal digits of a natural number, and of an integer after a minus sign when it is
  negative.
\<close>

definition digit_char :: "nat \<Rightarrow> char" where
  "digit_char d = ''0123456789'' ! d"

function str_nat :: "nat \<Rightarrow> string" where
  "str_nat n = (if n < 10 then [digit_char n] else str_nat (n div 10) @ [digit_char (n mod 10)])"
  by pat_completeness auto
termination
  by (relation "measure (\<lambda>n. n)") auto

declare str_nat.simps [simp del]

definition decimal :: "int \<Rightarrow> string" where
  "decimal i = (if i < 0 then CHR ''-'' # str_nat (nat (- i)) else str_nat (nat i))"

text \<open>
  \<open>str(n)\<close> of an integer. CPython (3.11 and later; the notebooks ran on 3.13) raises
  \<open>ValueError\<close> when the integer has more decimal digits, the sign not counted, than
  \<open>sys.get_int_max_str_digits()\<close>, which is 4300 unless the program changes it; the
  notebooks do not.
\<close>

definition max_str_digits :: nat where
  "max_str_digits = 4300"

definition str_int :: "int \<Rightarrow> error + string" where
  "str_int i =
     (if max_str_digits < length (str_nat (nat \<bar>i\<bar>)) then Inl ValueError else Inr (decimal i))"

text \<open>\<open>str(v)\<close> of a scalar value.\<close>

fun str_val :: "val \<Rightarrow> error + string" where
  "str_val VNone = Inr ''None''"
| "str_val (VBool b) = Inr (if b then ''True'' else ''False'')"
| "str_val (VInt i) = str_int i"
| "str_val (VStr s) = Inr s"

text \<open>
  \<open>repr(s)\<close> of a string that holds no quote, no backslash and only printable
  characters: the string between single quotes. (The notebooks use it on such strings
  only.)
\<close>

definition repr_str :: "string \<Rightarrow> string" where
  "repr_str s = [CHR 0x27] @ s @ [CHR 0x27]"

text \<open>
  \<open>str(e)\<close> of an exception. A \<open>KeyError\<close> shows the \<open>repr\<close> of its key; a
  \<open>TypeError\<close> of a call shows CPython's message for the reason (the one for too many
  positional arguments is that of a function whose positional parameters have no defaults;
  the one for an unexpected keyword is without the suggestion of a similar parameter name
  that CPython 3.13 may add). The numbers in these messages are counts of arguments, which
  CPython formats without the limit on digits.
\<close>

definition plural :: "nat \<Rightarrow> string" where
  "plural n = (if n = 1 then [] else ''s'')"

fun quoted_names :: "string list \<Rightarrow> string" where
  "quoted_names [] = []"
| "quoted_names [a] = repr_str a"
| "quoted_names [a, b] = repr_str a @ '' and '' @ repr_str b"
| "quoted_names (a # b # c # rest) =
     (if rest = [] then repr_str a @ '', '' @ repr_str b @ '', and '' @ repr_str c
      else repr_str a @ '', '' @ quoted_names (b # c # rest))"

fun str_call_error :: "string \<Rightarrow> call_error \<Rightarrow> string" where
  "str_call_error f (MultipleValues k) =
     f @ ''() got multiple values for keyword argument '' @ repr_str k"
| "str_call_error f (UnexpectedKeyword k) =
     f @ ''() got an unexpected keyword argument '' @ repr_str k"
| "str_call_error f (TooManyPositional takes given kwonly_given) =
     f @ ''() takes '' @ str_nat takes @ '' positional argument'' @ plural takes @
     '' but '' @ str_nat given @
     (if kwonly_given = 0 then []
      else '' positional argument'' @ plural given @ '' (and '' @ str_nat kwonly_given @
           '' keyword-only argument'' @ plural kwonly_given @ '')'') @
     (if given = 1 \<and> kwonly_given = 0 then '' was'' else '' were'') @ '' given''"
| "str_call_error f (MissingKeywordOnly names) =
     f @ ''() missing '' @ str_nat (length names) @ '' required keyword-only argument'' @
     plural (length names) @ '': '' @ quoted_names names"

fun str_error :: "error \<Rightarrow> string" where
  "str_error (KeyError k) = repr_str k"
| "str_error (TypeError f r) = str_call_error f r"
| "str_error ValueError =
     ''Exceeds the limit ('' @ str_nat max_str_digits @
     '' digits) for integer string conversion; use sys.set_int_max_str_digits() to increase the limit''"

text \<open>
  An f-string is a sequence of literal text and fields. A field \<open>{v}\<close> inserts
  \<open>str(v)\<close>, a field \<open>{e}\<close> for an exception \<open>str(e)\<close>; the fields are
  evaluated from left to right, and the first conversion that raises ends the evaluation.
\<close>

datatype field = Lit string | Field val | Exc error

fun fstring :: "field list \<Rightarrow> error + string" where
  "fstring [] = Inr []"
| "fstring (Lit s # fs) = bind_err (fstring fs) (\<lambda>t. Inr (s @ t))"
| "fstring (Field v # fs) = bind_err (str_val v) (\<lambda>s. bind_err (fstring fs) (\<lambda>t. Inr (s @ t)))"
| "fstring (Exc e # fs) = bind_err (fstring fs) (\<lambda>t. Inr (str_error e @ t))"

text \<open>
  Standard output is the text printed so far; \<open>print(s)\<close> adds \<open>s\<close> and a newline.
  \<open>print(f"...")\<close> evaluates the f-string first.
\<close>

definition nl :: char where
  "nl = CHR 0x0A"

definition print :: "string \<Rightarrow> string \<Rightarrow> string" where
  "print out s = out @ s @ [nl]"

definition print_fstring :: "string \<Rightarrow> field list \<Rightarrow> error + string" where
  "print_fstring out fs = bind_err (fstring fs) (\<lambda>s. Inr (print out s))"

definition unlines :: "string list \<Rightarrow> string" where
  "unlines ls = concat (map (\<lambda>l. l @ [nl]) ls)"

section \<open>Dictionary notebook: access to a dictionary\<close>

text \<open>
  A dictionary with string keys (\<open>Dict[str, Any]\<close>) is a map from strings to values.
  \<open>d[k]\<close> raises \<open>KeyError\<close> for a missing key; \<open>d.get(k, default)\<close> returns
  \<open>default\<close> for a missing key, and \<open>d.get(k)\<close> is \<open>d.get(k, None)\<close>.
\<close>

type_synonym dict = "string \<rightharpoonup> val"

definition getitem :: "dict \<Rightarrow> string \<Rightarrow> error + val" where
  "getitem d k = (case d k of None \<Rightarrow> Inl (KeyError k) | Some v \<Rightarrow> Inr v)"

definition dict_get :: "dict \<Rightarrow> string \<Rightarrow> val \<Rightarrow> val" where
  "dict_get d k dflt = (case d k of None \<Rightarrow> dflt | Some v \<Rightarrow> v)"

text \<open>
  The demonstration cell:
  \<^verbatim>\<open>
  settings: Dict[str, Any] = {"theme": "dark", "fontSize": 12, "autosave": True}
  current_theme: str = settings["theme"]
  print(f"Access with []: Theme = {current_theme}")
  try:
      font_family = settings["fontFamily"] # This key doesn't exist
  except KeyError as e:
      print(f"Error accessing non-existent key with []: {e}\n")
  font_size: int | None = settings.get("fontSize")
  print(f"Access with .get(): Font Size = {font_size}")
  font_family: str | None = settings.get("fontFamily") # Key doesn't exist
  print(f"Access with .get() (key missing): Font Family = {font_family}")
  default_font = "Monospace"
  font_family_defaulted: str = settings.get("fontFamily", default_font)
  print(f"Access with .get() (defaulted): Font Family = {font_family_defaulted}")
  \<close>
  Its result is the text it prints, or the exception that leaves it.
\<close>

definition settings :: dict where
  "settings = [''theme'' \<mapsto> VStr ''dark'', ''fontSize'' \<mapsto> VInt 12, ''autosave'' \<mapsto> VBool True]"

definition access_cell :: "error + string" where
  "access_cell =
     bind_err (getitem settings ''theme'') (\<lambda>current_theme.
     bind_err (print_fstring [] [Lit ''Access with []: Theme = '', Field current_theme]) (\<lambda>out.
     bind_err (case getitem settings ''fontFamily'' of
                 Inl (KeyError k) \<Rightarrow>
                   print_fstring out [Lit ''Error accessing non-existent key with []: '',
                                      Exc (KeyError k), Lit [nl]]
               | Inl e \<Rightarrow> Inl e
               | Inr font_family \<Rightarrow> Inr out) (\<lambda>out.
     let font_size = dict_get settings ''fontSize'' VNone in
     bind_err (print_fstring out [Lit ''Access with .get(): Font Size = '', Field font_size]) (\<lambda>out.
     let font_family = dict_get settings ''fontFamily'' VNone in
     bind_err (print_fstring out [Lit ''Access with .get() (key missing): Font Family = '',
                                  Field font_family]) (\<lambda>out.
     let default_font = VStr ''Monospace'';
         font_family_defaulted = dict_get settings ''fontFamily'' default_font in
     print_fstring out [Lit ''Access with .get() (defaulted): Font Family = '',
                        Field font_family_defaulted])))))"

section \<open>Dictionary notebook: \<open>analyze_logs\<close>\<close>

text \<open>
  \<^verbatim>\<open>
  def analyze_logs(logs: List[LogEntry]) -> Dict[str, int]:
      level_counts: Dict[str, int] = defaultdict(int)
      for entry in logs:
          level = entry.get("level", "UNKNOWN") # Safely get the level
          level_counts[level] += 1
      return dict(level_counts) # Convert back to regular dict if preferred
  \<close>
  The keys of \<open>level_counts\<close> are the values found under \<open>"level"\<close>, whatever their
  type. A dictionary compares keys with \<open>==\<close>, under which \<open>True\<close> is \<open>1\<close> and
  \<open>False\<close> is \<open>0\<close>; it keeps its keys in the order of their first insertion, and
  an assignment to a key it holds keeps the key object and replaces the value. So the
  dictionary of counts is a list of key-value pairs, searched with Python's equality.
\<close>

fun as_key :: "val \<Rightarrow> val" where
  "as_key (VBool b) = VInt (if b then 1 else 0)"
| "as_key v = v"

definition key_eq :: "val \<Rightarrow> val \<Rightarrow> bool" where
  "key_eq a b = (as_key a = as_key b)"

type_synonym counts = "(val \<times> int) list"

fun lookup :: "counts \<Rightarrow> val \<Rightarrow> int option" where
  "lookup [] k = None"
| "lookup ((k', v) # kvs) k = (if key_eq k' k then Some v else lookup kvs k)"

fun setitem :: "counts \<Rightarrow> val \<Rightarrow> int \<Rightarrow> counts" where
  "setitem [] k v = [(k, v)]"
| "setitem ((k', v') # kvs) k v =
     (if key_eq k' k then (k', v) # kvs else (k', v') # setitem kvs k v)"

text \<open>
  \<open>level_counts[level] += 1\<close> on a \<open>defaultdict(int)\<close>: the value read for a
  missing key is \<open>int()\<close>, that is 0; the sum is stored under the key.
\<close>

definition increment :: "counts \<Rightarrow> val \<Rightarrow> counts" where
  "increment c k = setitem c k ((case lookup c k of None \<Rightarrow> 0 | Some n \<Rightarrow> n) + 1)"

text \<open>
  The objects of this notebook's store: a log entry (a dictionary with string keys), a list
  of references to log entries, a dictionary of counts. The function allocates
  \<open>level_counts\<close>, updates it in place once for every entry of \<open>logs\<close>, and returns
  a new dictionary with its contents. The body of the loop writes to \<open>level_counts\<close>
  only, an object allocated by the call, so the loop visits the references that \<open>logs\<close>
  holds when it starts; it reads each entry from the store when it comes to it. The function
  has no result (\<open>None\<close>) when \<open>logs\<close> does not denote a list of log entries.
\<close>

datatype dobj = Entry dict | EntryList "ref list" | Counts counts

fun count_loop :: "dobj heap \<Rightarrow> ref \<Rightarrow> ref list \<Rightarrow> dobj heap option" where
  "count_loop h level_counts [] = Some h"
| "count_loop h level_counts (entry # rest) =
     (case deref h entry of
        Some (Entry d) \<Rightarrow>
          (let level = dict_get d ''level'' (VStr ''UNKNOWN'') in
           case deref h level_counts of
             Some (Counts c) \<Rightarrow>
               count_loop (assign h level_counts (Counts (increment c level))) level_counts rest
           | _ \<Rightarrow> None)
      | _ \<Rightarrow> None)"

definition analyze_logs :: "dobj heap \<Rightarrow> ref \<Rightarrow> (dobj heap \<times> ref) option" where
  "analyze_logs h logs =
     (let (h1, level_counts) = alloc h (Counts []) in
      case deref h1 logs of
        Some (EntryList entries) \<Rightarrow>
          (case count_loop h1 level_counts entries of
             None \<Rightarrow> None
           | Some h2 \<Rightarrow>
               (case deref h2 level_counts of
                  Some (Counts c) \<Rightarrow> Some (alloc h2 (Counts c))
                | _ \<Rightarrow> None))
      | _ \<Rightarrow> None)"

section \<open>Tuple notebook: \<open>filter_passing_students\<close>\<close>


definition append :: "'a list heap \<Rightarrow> ref \<Rightarrow> 'a \<Rightarrow> 'a list heap option" where
  "append h r x = (case deref h r of None \<Rightarrow> None | Some xs \<Rightarrow> Some (assign h r (xs @ [x])))"



section \<open>Asterisk notebook: \<open>create_user\<close>\<close>

text \<open>
  \<^verbatim>\<open>
  def create_user(*, user_id: int, name: str, is_active: bool = True) -> Dict[str, Any]:
      print(f"Creating user {name} (ID: {user_id}), Active: {is_active}")
      return {"id": user_id, "name": name, "active": is_active}
  \<close>
  A call gives positional arguments (a list of values) and keyword arguments (names with
  values, in the order of the call). A keyword cannot be written twice in a call, but
  \<open>**mapping\<close> can give a name again; CPython collects the keywords in order and
  rejects the call at the first name it already has. The function has no positional
  parameter and three keyword-only ones. CPython binds the keywords, in order, and rejects
  the first that is no parameter; then it rejects positional arguments beyond the
  positional parameters; then it fills the keyword-only parameters that got no value from
  their defaults and rejects the call when one has none. Then the body runs: it prints one
  line, which raises when a field cannot be converted, and returns a new dictionary.
\<close>

fun first_duplicate :: "string list \<Rightarrow> string list \<Rightarrow> string option" where
  "first_duplicate seen [] = None"
| "first_duplicate seen (k # ks) =
     (if k \<in> set seen then Some k else first_duplicate (k # seen) ks)"

definition create_user ::
  "string \<Rightarrow> val list \<Rightarrow> (string \<times> val) list \<Rightarrow> error + (string \<times> dict)" where
  "create_user out args kwargs =
     (case first_duplicate [] (map fst kwargs) of
        Some k \<Rightarrow> Inl (TypeError ''create_user'' (MultipleValues k))
      | None \<Rightarrow>
     (case find (\<lambda>k. k \<notin> {''user_id'', ''name'', ''is_active''}) (map fst kwargs) of
        Some k \<Rightarrow> Inl (TypeError ''create_user'' (UnexpectedKeyword k))
      | None \<Rightarrow>
          if args \<noteq> [] then
            Inl (TypeError ''create_user'' (TooManyPositional 0 (length args) (length kwargs)))
          else
            (case (map_of kwargs ''user_id'', map_of kwargs ''name'') of
               (None, None) \<Rightarrow>
                 Inl (TypeError ''create_user'' (MissingKeywordOnly [''user_id'', ''name'']))
             | (None, Some name) \<Rightarrow>
                 Inl (TypeError ''create_user'' (MissingKeywordOnly [''user_id'']))
             | (Some user_id, None) \<Rightarrow>
                 Inl (TypeError ''create_user'' (MissingKeywordOnly [''name'']))
             | (Some user_id, Some name) \<Rightarrow>
                 (let is_active =
                        (case map_of kwargs ''is_active'' of None \<Rightarrow> VBool True | Some a \<Rightarrow> a)
                  in bind_err
                       (print_fstring out
                          [Lit ''Creating user '', Field name, Lit '' (ID: '', Field user_id,
                           Lit ''), Active: '', Field is_active])
                       (\<lambda>out'. Inr (out', [''id'' \<mapsto> user_id, ''name'' \<mapsto> name,
                                          ''active'' \<mapsto> is_active]))))))"

text \<open>
  The first part of the demonstration cell:
  \<^verbatim>\<open>
  print("--- Keyword-Only Arguments (bare *) --- ")
  user1 = create_user(user_id=101, name="Alice")
  user2 = create_user(user_id=102, name="Bob", is_active=False)
  try:
      create_user(103, "Charlie")
  except TypeError as e:
      print(f"Caught expected TypeError: {e}")
  \<close>
\<close>

definition create_user_demo :: "error + string" where
  "create_user_demo =
     (let out = print [] ''--- Keyword-Only Arguments (bare *) --- '' in
      bind_err (create_user out [] [(''user_id'', VInt 101), (''name'', VStr ''Alice'')])
        (\<lambda>(out, user1).
      bind_err (create_user out []
                  [(''user_id'', VInt 102), (''name'', VStr ''Bob''), (''is_active'', VBool False)])
        (\<lambda>(out, user2).
      case create_user out [VInt 103, VStr ''Charlie''] [] of
        Inl (TypeError f r) \<Rightarrow>
          print_fstring out [Lit ''Caught expected TypeError: '', Exc (TypeError f r)]
      | Inl e \<Rightarrow> Inl e
      | Inr (out, u) \<Rightarrow> Inr out)))"

section \<open>Functions and lambda notebooks: closures\<close>

text \<open>
  \<^verbatim>\<open>
  def make_adder(n: int) -> Callable[[int], int]:
      def adder(x: int) -> int:
          return x + n
      return adder

  def make_multiplier(n: int) -> Callable[[int], int]:
      return lambda x: x * n # Lambda captures 'n' from enclosing scope
  \<close>
  A variable that an inner function uses lives in a cell. A call of the factory allocates a
  cell for its \<open>n\<close> and returns a function object holding the inner function's code and
  a reference to that cell (\<open>__closure__\<close>); a call of the function object reads the
  cell. The store of these notebooks holds the cells' integers.
\<close>

datatype closure = Adder ref | Multiplier ref

definition make_adder :: "int heap \<Rightarrow> int \<Rightarrow> int heap \<times> closure" where
  "make_adder h n = (let (h', cell) = alloc h n in (h', Adder cell))"

definition make_multiplier :: "int heap \<Rightarrow> int \<Rightarrow> int heap \<times> closure" where
  "make_multiplier h n = (let (h', cell) = alloc h n in (h', Multiplier cell))"

fun call :: "int heap \<Rightarrow> closure \<Rightarrow> int \<Rightarrow> int option" where
  "call h (Adder cell) x = (case deref h cell of None \<Rightarrow> None | Some n \<Rightarrow> Some (x + n))"
| "call h (Multiplier cell) x = (case deref h cell of None \<Rightarrow> None | Some n \<Rightarrow> Some (x * n))"

section \<open>Functions notebook: default arguments\<close>

text \<open>
  \<^verbatim>\<open>
  def add_item_bad(item: str, target_list: List[str] = []) -> List[str]:
      target_list.append(item)
      return target_list

  def add_item_good(item: str, target_list: Optional[List[str]] = None) -> List[str]:
      if target_list is None:
          target_list = [] # Create a new list each time if none provided
      target_list.append(item)
      return target_list
  \<close>
  The objects of the store are lists of strings. A default value is evaluated once, when the
  \<open>def\<close> statement runs: \<open>def_add_item_bad\<close> allocates the default list and yields
  its reference, which the function keeps. The argument \<open>target_list\<close> is \<open>None\<close>
  when the call leaves it out (or, for \<open>add_item_good\<close>, passes \<open>None\<close>).
\<close>

definition def_add_item_bad :: "string list heap \<Rightarrow> string list heap \<times> ref" where
  "def_add_item_bad h = alloc h []"

definition add_item_bad ::
  "ref \<Rightarrow> string list heap \<Rightarrow> string \<Rightarrow> ref option \<Rightarrow> (string list heap \<times> ref) option" where
  "add_item_bad dflt h item target_list_arg =
     (let target_list = (case target_list_arg of None \<Rightarrow> dflt | Some r \<Rightarrow> r) in
      case append h target_list item of
        None \<Rightarrow> None
      | Some h' \<Rightarrow> Some (h', target_list))"

definition add_item_good ::
  "string list heap \<Rightarrow> string \<Rightarrow> ref option \<Rightarrow> (string list heap \<times> ref) option" where
  "add_item_good h item target_list_arg =
     (let (h1, target_list) = (case target_list_arg of None \<Rightarrow> alloc h [] | Some r \<Rightarrow> (h, r)) in
      case append h1 target_list item of
        None \<Rightarrow> None
      | Some h' \<Rightarrow> Some (h', target_list))"

section \<open>Lambda notebook: conditional formatting\<close>

text \<open>
  \<^verbatim>\<open>
  formatted_list: List[str] = list(
      map(
          lambda x: f"{x} (even)" if x % 2 == 0 else f"{x} (odd)",
          numbers_to_format
      )
  )
  formatted_lc = [f"{x} (even)" if x % 2 == 0 else f"{x} (odd)" for x in numbers_to_format]
  \<close>
  \<open>map(f, xs)\<close> is an iterator: it holds the function and what is left of the input, and
  each \<open>next\<close> applies the function to one more element, or raises what the function
  raises, or \<open>StopIteration\<close> when nothing is left. \<open>list(it)\<close> appends the results
  of \<open>next\<close> to a new list until the iterator is exhausted; an exception other than
  \<open>StopIteration\<close> leaves it. A list comprehension is a loop over the input that
  appends the value of its expression to a new list. Python's \<open>%\<close> takes the sign of
  the divisor, as \<open>mod\<close> on \<open>int\<close> does.
\<close>

datatype ('a, 'b) map_iterator = MapIterator "'a \<Rightarrow> error + 'b" "'a list"

datatype ('a, 'b) step = StopIteration | Raise error | Yield 'b "('a, 'b) map_iterator"

fun next_item :: "('a, 'b) map_iterator \<Rightarrow> ('a, 'b) step" where
  "next_item (MapIterator f []) = StopIteration"
| "next_item (MapIterator f (x # xs)) =
     (case f x of Inl e \<Rightarrow> Raise e | Inr y \<Rightarrow> Yield y (MapIterator f xs))"

fun remaining :: "('a, 'b) map_iterator \<Rightarrow> nat" where
  "remaining (MapIterator f xs) = length xs"

lemma next_item_remaining: "next_item it = Yield y it' \<Longrightarrow> remaining it' < remaining it"
  by (cases it rule: next_item.cases) (auto split: sum.splits)

function list_of_iterator :: "'b list \<Rightarrow> ('a, 'b) map_iterator \<Rightarrow> error + 'b list" where
  "list_of_iterator acc it =
     (case next_item it of
        StopIteration \<Rightarrow> Inr acc
      | Raise e \<Rightarrow> Inl e
      | Yield y it' \<Rightarrow> list_of_iterator (acc @ [y]) it')"
  by pat_completeness auto
termination
  by (relation "measure (\<lambda>(acc, it). remaining it)") (auto dest: next_item_remaining)

declare list_of_iterator.simps [simp del]

definition format_lambda :: "int \<Rightarrow> error + string" where
  "format_lambda x =
     (if x mod 2 = 0 then fstring [Field (VInt x), Lit '' (even)'']
      else fstring [Field (VInt x), Lit '' (odd)''])"

definition formatted_list :: "int list \<Rightarrow> error + string list" where
  "formatted_list numbers_to_format =
     list_of_iterator [] (MapIterator format_lambda numbers_to_format)"

fun comprehension_loop :: "string list \<Rightarrow> int list \<Rightarrow> error + string list" where
  "comprehension_loop acc [] = Inr acc"
| "comprehension_loop acc (x # xs) =
     bind_err (if x mod 2 = 0 then fstring [Field (VInt x), Lit '' (even)'']
               else fstring [Field (VInt x), Lit '' (odd)''])
       (\<lambda>s. comprehension_loop (acc @ [s]) xs)"

definition formatted_lc :: "int list \<Rightarrow> error + string list" where
  "formatted_lc numbers_to_format = comprehension_loop [] numbers_to_format"

text \<open>
  The claim about this cell speaks of the decimal rendering of an integer. Stated on its own,
  apart from \<open>decimal\<close>: a string renders \<open>x\<close> in decimal when it is a canonical
  digit string (not empty, digits only, no leading zero but for \<open>0\<close> itself) whose
  value is \<open>x\<close>, or, for negative \<open>x\<close>, a minus sign before such a string for
  \<open>- x\<close>.
\<close>

definition is_digit :: "char \<Rightarrow> bool" where
  "is_digit c = (c \<in> set ''0123456789'')"

definition digit_value :: "char \<Rightarrow> nat" where
  "digit_value c = of_char c - 48"

definition nat_of_decimal :: "string \<Rightarrow> nat" where
  "nat_of_decimal ds = foldl (\<lambda>a c. 10 * a + digit_value c) 0 ds"

definition canonical :: "string \<Rightarrow> bool" where
  "canonical ds = (ds \<noteq> [] \<and> list_all is_digit ds \<and> (hd ds = CHR ''0'' \<longrightarrow> ds = ''0''))"

definition decimal_rendering :: "string \<Rightarrow> int \<Rightarrow> bool" where
  "decimal_rendering s x =
     (case s of
        [] \<Rightarrow> False
      | c # ds \<Rightarrow>
          if c = CHR ''-'' then x < 0 \<and> canonical ds \<and> - int (nat_of_decimal ds) = x
          else canonical s \<and> int (nat_of_decimal s) = x)"

section \<open>Notions for the statements and proofs\<close>

text \<open>
  The level under which \<open>analyze_logs\<close> counts an entry (the expression of its loop
  body), and the dictionary of counts after incrementing for a list of levels in turn, as
  the loop does.
\<close>

definition level_of :: "dict \<Rightarrow> val" where
  "level_of d = dict_get d ''level'' (VStr ''UNKNOWN'')"

definition tally :: "counts \<Rightarrow> val list \<Rightarrow> counts" where
  "tally c ls = foldl increment c ls"

text \<open>
  A value that \<open>str\<close> converts: any but an integer beyond the limit on digits. And the
  outcome of applying a function that may raise to the elements of a list in turn: the list
  of the results, or the first exception.
\<close>

definition printable :: "val \<Rightarrow> bool" where
  "printable v = (case v of VInt i \<Rightarrow> \<bar>i\<bar> < 10 ^ max_str_digits | _ \<Rightarrow> True)"

fun map_err :: "('a \<Rightarrow> error + 'b) \<Rightarrow> 'a list \<Rightarrow> error + 'b list" where
  "map_err f [] = Inr []"
| "map_err f (x # xs) = bind_err (f x) (\<lambda>y. bind_err (map_err f xs) (\<lambda>ys. Inr (y # ys)))"




definition log_data :: "dict list" where
  "log_data =
     [[''timestamp'' \<mapsto> VInt 1678886400, ''level'' \<mapsto> VStr ''INFO'', ''message'' \<mapsto> VStr ''User logged in''],
      [''timestamp'' \<mapsto> VInt 1678886405, ''level'' \<mapsto> VStr ''INFO'', ''message'' \<mapsto> VStr ''Data processed successfully''],
      [''timestamp'' \<mapsto> VInt 1678886410, ''level'' \<mapsto> VStr ''WARNING'', ''message'' \<mapsto> VStr ''Disk space low''],
      [''timestamp'' \<mapsto> VInt 1678886415, ''level'' \<mapsto> VStr ''INFO'', ''message'' \<mapsto> VStr ''Request received''],
      [''timestamp'' \<mapsto> VInt 1678886420, ''level'' \<mapsto> VStr ''ERROR'', ''message'' \<mapsto> VStr ''Database connection failed''],
      [''timestamp'' \<mapsto> VInt 1678886425, ''level'' \<mapsto> VStr ''WARNING'', ''message'' \<mapsto> VStr ''API rate limit approaching''],
      [''timestamp'' \<mapsto> VInt 1678886430, ''level'' \<mapsto> VStr ''INFO'', ''message'' \<mapsto> VStr ''User logged out''],
      [''timestamp'' \<mapsto> VInt 1678886435, ''level'' \<mapsto> VStr ''DEBUG'', ''message'' \<mapsto> VStr ''Variable value: xyz''],
      [''timestamp'' \<mapsto> VInt 1678886440, ''level'' \<mapsto> VStr ''ERROR'', ''message'' \<mapsto> VStr ''Null pointer exception'']]"

section \<open>Store lemmas\<close>

lemma extends_refl: "extends h h"
  by (simp add: extends_def)

lemma extends_append: "extends h (h @ xs)"
  by (simp add: extends_def)

lemma extends_deref:
  assumes "extends h h'" and "r < length h"
  shows "deref h' r = deref h r"
proof -
  from assms(1) append_take_drop_id [of "length h" h'] have "h' = h @ drop (length h) h'"
    by (simp add: extends_def)
  then obtain ys where "h' = h @ ys" ..
  with assms(2) show ?thesis
    by (simp add: deref_def nth_append)
qed

lemma compare_features_eval:
  assumes v1: "deref h v1 = Some (SList xs)" and v2: "deref h v2 = Some (SList ys)"
  shows "compare_features h v1 v2 =
     Some (h @ [SSet (set xs), SSet (set ys), SSet (set xs \<inter> set ys),
                SSet (set xs - set ys), SSet (set ys - set xs)],
           (length h + 2, length h + 3, length h + 4))"
proof -
  from v1 have l1: "v1 < length h" and n1: "h ! v1 = SList xs"
    by (auto simp: deref_def split: if_splits)
  from v2 have l2: "v2 < length h" and n2: "h ! v2 = SList ys"
    by (auto simp: deref_def split: if_splits)
  show ?thesis
    using l1 l2 n1 n2
    by (simp add: compare_features_def set_new_def intersection_def difference_def
        alloc_def deref_def nth_append)
qed

section \<open>Combinations of two\<close>

lemma combinations_1: "combinations xs (Suc 0) = map (\<lambda>y. [y]) xs"
  by (induction xs) auto

lemma pairs_from_Cons:
  "[[(x # xs) ! i, (x # xs) ! j]. i \<leftarrow> [0..<Suc (length xs)], j \<leftarrow> [Suc i..<Suc (length xs)]] =
   map (\<lambda>y. [x, y]) xs @ [[xs ! i, xs ! j]. i \<leftarrow> [0..<length xs], j \<leftarrow> [Suc i..<length xs]]"
proof -
  have split: "[0..<Suc (length xs)] = 0 # map Suc [0..<length xs]"
    by (simp add: upt_conv_Cons map_Suc_upt del: upt_Suc)
  have first: "map (\<lambda>j. [x, (x # xs) ! j]) [Suc 0..<Suc (length xs)] = map (\<lambda>y. [x, y]) xs"
  proof -
    have "map (\<lambda>j. [x, (x # xs) ! j]) [Suc 0..<Suc (length xs)] =
          map (\<lambda>j. [x, xs ! j]) [0..<length xs]"
      by (simp add: map_Suc_upt [symmetric] del: upt_Suc)
    also have "\<dots> = map (\<lambda>y. [x, y]) (map ((!) xs) [0..<length xs])"
      by simp
    finally show ?thesis by (simp add: map_nth)
  qed
  have rest: "map (\<lambda>j. [xs ! i, (x # xs) ! j]) [Suc (Suc i)..<Suc (length xs)] =
      map (\<lambda>j. [xs ! i, xs ! j]) [Suc i..<length xs]" for i
    by (simp add: map_Suc_upt [symmetric] del: upt_Suc)
  show ?thesis
    unfolding split by (simp add: first rest o_def del: upt_Suc)
qed

lemma combinations_2:
  "combinations xs 2 = [[xs ! i, xs ! j]. i \<leftarrow> [0..<length xs], j \<leftarrow> [Suc i..<length xs]]"
proof (induction xs)
  case Nil
  show ?case by (simp add: numeral_2_eq_2)
next
  case (Cons x xs)
  have "combinations (x # xs) 2 = map (\<lambda>y. [x, y]) xs @ combinations xs 2"
    by (simp add: numeral_2_eq_2 combinations_1)
  with Cons pairs_from_Cons [of x xs] show ?case
    by simp
qed

lemma length_combinations_2: "length (combinations xs 2) = length xs * (length xs - 1) div 2"
proof (induction xs)
  case Nil
  show ?case by (simp add: numeral_2_eq_2)
next
  case (Cons x xs)
  have "length (combinations (x # xs) 2) = length xs + length (combinations xs 2)"
    by (simp add: numeral_2_eq_2 combinations_1)
  also have "\<dots> = length xs + length xs * (length xs - 1) div 2"
    by (simp add: Cons.IH)
  also have "\<dots> = length (x # xs) * (length (x # xs) - 1) div 2"
    by (cases "length xs") (simp_all add: algebra_simps)
  finally show ?case .
qed

lemma combinations_subset: "ys \<in> set (combinations xs r) \<Longrightarrow> set ys \<subseteq> set xs"
proof (induction xs r arbitrary: ys rule: combinations.induct)
  case (3 x xs r)
  from "3.prems" consider zs where "ys = x # zs" "zs \<in> set (combinations xs r)"
    | "ys \<in> set (combinations xs (Suc r))"
    by auto
  then show ?case
  proof cases
    case 1
    with "3.IH"(1) [of zs] show ?thesis by auto
  next
    case 2
    with "3.IH"(2) [of ys] show ?thesis by auto
  qed
qed simp_all

lemma distinct_combinations: "distinct xs \<Longrightarrow> distinct (combinations xs r)"
proof (induction xs r rule: combinations.induct)
  case (3 x xs r)
  have "distinct (map ((#) x) (combinations xs r))"
    using 3 by (simp add: distinct_map)
  moreover have "distinct (combinations xs (Suc r))"
    using 3 by simp
  moreover have "set (map ((#) x) (combinations xs r)) \<inter> set (combinations xs (Suc r)) = {}"
    using 3(3) by (auto dest: combinations_subset)
  ultimately show ?case by simp
qed simp_all

lemma pair_not_reversed:
  "distinct xs \<Longrightarrow> [a, b] \<in> set (combinations xs 2) \<Longrightarrow> [b, a] \<notin> set (combinations xs 2)"
proof (induction xs)
  case Nil
  then show ?case by (simp add: numeral_2_eq_2)
next
  case (Cons x xs)
  have step: "combinations (x # xs) 2 = map (\<lambda>y. [x, y]) xs @ combinations xs 2"
    by (simp add: numeral_2_eq_2 combinations_1)
  from Cons.prems have x: "x \<notin> set xs" and d: "distinct xs" by simp_all
  show ?case
  proof (cases "[a, b] \<in> set (combinations xs 2)")
    case True
    then have "a \<in> set xs" "b \<in> set xs" by (auto dest: combinations_subset)
    with x have "b \<noteq> x" by auto
    with Cons.IH [OF d True] show ?thesis by (auto simp: step)
  next
    case False
    with Cons.prems(2) have ax: "a = x" and b: "b \<in> set xs" by (auto simp: step)
    from b x have "b \<noteq> x" by auto
    moreover have "[b, a] \<notin> set (combinations xs 2)"
      using ax x by (auto dest: combinations_subset)
    ultimately show ?thesis by (auto simp: step)
  qed
qed

section \<open>Exceptions as values\<close>

lemma bind_err_Inl: "bind_err (Inl e) f = Inl e"
  by (simp add: bind_err_def)

lemma bind_err_Inr: "bind_err (Inr x) f = f x"
  by (simp add: bind_err_def)

section \<open>The limit on digits\<close>

lemma str_nat_nonempty: "str_nat n \<noteq> []"
  by (subst str_nat.simps) simp

lemma length_str_nat:
  "length (str_nat n) = (if n < 10 then 1 else Suc (length (str_nat (n div 10))))"
  by (subst str_nat.simps) simp

lemma length_str_nat_le: "0 < d \<Longrightarrow> (length (str_nat n) \<le> d) = (n < 10 ^ d)"
proof (induction n arbitrary: d rule: str_nat.induct)
  case (1 n)
  show ?case
  proof (cases "n < 10")
    case True
    have "(10::nat) ^ 1 \<le> 10 ^ d"
      using "1.prems" by (intro power_increasing) simp_all
    with True have "n < 10 ^ d" by simp
    with True "1.prems" show ?thesis
      by (simp add: length_str_nat [of n] Suc_le_eq)
  next
    case False
    obtain d' where d: "d = Suc d'"
      using "1.prems" by (cases d) simp_all
    show ?thesis
    proof (cases "d' = 0")
      case True
      with False d str_nat_nonempty [of "n div 10"] show ?thesis
        by (simp add: length_str_nat [of n])
    next
      case nz: False
      then have "(length (str_nat (n div 10)) \<le> d') = (n div 10 < 10 ^ d')"
        using "1.IH" [OF False, of d'] by simp
      moreover have "(n div 10 < 10 ^ d') = (n < 10 ^ Suc d')"
        by (simp add: div_less_iff_less_mult mult.commute)
      ultimately show ?thesis
        using False by (simp add: length_str_nat [of n] d)
    qed
  qed
qed

lemma max_str_digits_pos: "0 < max_str_digits"
  by (simp add: max_str_digits_def)

lemma str_int_limit:
  "str_int i = (if 10 ^ max_str_digits \<le> \<bar>i\<bar> then Inl ValueError else Inr (decimal i))"
proof -
  have "(max_str_digits < length (str_nat (nat \<bar>i\<bar>))) = (\<not> nat \<bar>i\<bar> < 10 ^ max_str_digits)"
    using length_str_nat_le [OF max_str_digits_pos, of "nat \<bar>i\<bar>"] by auto
  also have "\<dots> = (10 ^ max_str_digits \<le> \<bar>i\<bar>)"
  proof -
    have "int (nat \<bar>i\<bar>) = \<bar>i\<bar>" by simp
    moreover have "(nat \<bar>i\<bar> < 10 ^ max_str_digits) = (int (nat \<bar>i\<bar>) < int (10 ^ max_str_digits))"
      by (simp only: of_nat_less_iff)
    moreover have "int (10 ^ max_str_digits) = 10 ^ max_str_digits"
      by simp
    ultimately show ?thesis by (simp only: not_less)
  qed
  finally show ?thesis
    by (simp only: str_int_def)
qed

lemma str_val_printable: "printable v \<Longrightarrow> \<exists>s. str_val v = Inr s"
  by (cases v) (simp_all add: printable_def str_int_limit)

lemma str_val_unprintable: "\<not> printable v \<Longrightarrow> str_val v = Inl ValueError"
  by (cases v) (simp_all add: printable_def str_int_limit)

lemma small_below_limit:
  assumes "\<bar>x\<bar> < 10 ^ 4"
  shows "\<bar>x :: int\<bar> < 10 ^ max_str_digits"
proof -
  have "(10::int) ^ 4 \<le> 10 ^ max_str_digits"
    by (intro power_increasing) (simp_all add: max_str_digits_def)
  with assms show ?thesis by (rule less_le_trans)
qed

lemma printable_small: "\<bar>i\<bar> < 10 ^ 4 \<Longrightarrow> printable (VInt i)"
  by (simp only: printable_def val.case small_below_limit)

lemma at_limit: "(10::int) ^ 4300 = 10 ^ max_str_digits"
  by (simp only: max_str_digits_def)

lemma limit_reached: "10 ^ max_str_digits \<le> \<bar>10 ^ max_str_digits :: int\<bar>"
  by simp

lemma unprintable_limit: "\<not> printable (VInt (10 ^ max_str_digits))"
  by (simp add: printable_def)

section \<open>The demonstration cells\<close>

lemma access_cell_eval:
  "access_cell = Inr (unlines
     [''Access with []: Theme = dark'',
      ''Error accessing non-existent key with []: '' @ [CHR 0x27] @ ''fontFamily'' @ [CHR 0x27],
      [],
      ''Access with .get(): Font Size = 12'',
      ''Access with .get() (key missing): Font Family = None'',
      ''Access with .get() (defaulted): Font Family = Monospace''])"
  by (simp add: access_cell_def getitem_def settings_def print_def print_fstring_def unlines_def
      dict_get_def repr_str_def str_int_def decimal_def max_str_digits_def str_nat.simps
      digit_char_def bind_err_def)

lemma create_user_demo_eval:
  "create_user_demo = Inr (unlines
     [''--- Keyword-Only Arguments (bare *) --- '',
      ''Creating user Alice (ID: 101), Active: True'',
      ''Creating user Bob (ID: 102), Active: False'',
      ''Caught expected TypeError: create_user() takes 0 positional arguments but 2 were given''])"
  by (simp add: create_user_demo_def create_user_def print_def print_fstring_def unlines_def
      plural_def repr_str_def str_int_def decimal_def max_str_digits_def str_nat.simps
      digit_char_def bind_err_def)

section \<open>Binding the arguments of \<open>create_user\<close>\<close>

lemma first_duplicate_None:
  "(first_duplicate seen ks = None) = (distinct ks \<and> set ks \<inter> set seen = {})"
  by (induction ks arbitrary: seen) auto

lemma first_duplicate_distinct: "distinct ks \<Longrightarrow> first_duplicate [] ks = None"
  by (simp add: first_duplicate_None)

lemma first_duplicate_Some: "\<not> distinct ks \<Longrightarrow> \<exists>k. first_duplicate [] ks = Some k"
  using first_duplicate_None [of "[]" ks] by (cases "first_duplicate [] ks") simp_all

lemma find_None_keywords:
  "set (map fst kwargs) \<subseteq> {''user_id'', ''name'', ''is_active''} \<Longrightarrow>
   find (\<lambda>k. k \<notin> {''user_id'', ''name'', ''is_active''}) (map fst kwargs) = None"
  unfolding find_None_iff by blast

lemma create_user_body:
  assumes "distinct (map fst kwargs)"
    and "set (map fst kwargs) \<subseteq> {''user_id'', ''name'', ''is_active''}"
    and "map_of kwargs ''user_id'' = Some user_id" and "map_of kwargs ''name'' = Some name"
  shows "create_user out [] kwargs =
     bind_err
       (print_fstring out
          [Lit ''Creating user '', Field name, Lit '' (ID: '', Field user_id,
           Lit ''), Active: '',
           Field (case map_of kwargs ''is_active'' of None \<Rightarrow> VBool True | Some a \<Rightarrow> a)])
       (\<lambda>out'. Inr (out', [''id'' \<mapsto> user_id, ''name'' \<mapsto> name,
                          ''active'' \<mapsto> (case map_of kwargs ''is_active'' of
                                            None \<Rightarrow> VBool True | Some a \<Rightarrow> a)]))"
  unfolding create_user_def first_duplicate_distinct [OF assms(1)]
    find_None_keywords [OF assms(2)]
  using assms(3,4) by (simp add: Let_def)

lemma create_user_returns:
  assumes "distinct (map fst kwargs)"
    and "set (map fst kwargs) \<subseteq> {''user_id'', ''name'', ''is_active''}"
    and "map_of kwargs ''user_id'' = Some user_id" and "map_of kwargs ''name'' = Some name"
    and "printable user_id" and "printable name"
    and "printable (case map_of kwargs ''is_active'' of None \<Rightarrow> VBool True | Some a \<Rightarrow> a)"
  shows "\<exists>out'. create_user out [] kwargs =
          Inr (out', [''id'' \<mapsto> user_id, ''name'' \<mapsto> name,
                      ''active'' \<mapsto> (case map_of kwargs ''is_active'' of
                                        None \<Rightarrow> VBool True | Some a \<Rightarrow> a)])"
proof -
  from str_val_printable [OF assms(5)] obtain su where su: "str_val user_id = Inr su" ..
  from str_val_printable [OF assms(6)] obtain sn where sn: "str_val name = Inr sn" ..
  from str_val_printable [OF assms(7)] obtain sa where
    sa: "str_val (case map_of kwargs ''is_active'' of None \<Rightarrow> VBool True | Some a \<Rightarrow> a) = Inr sa" ..
  show ?thesis
    unfolding create_user_body [OF assms(1-4)]
    by (simp add: print_fstring_def su sn sa bind_err_Inr)
qed

lemma create_user_unprintable:
  assumes "distinct (map fst kwargs)"
    and "set (map fst kwargs) \<subseteq> {''user_id'', ''name'', ''is_active''}"
    and "map_of kwargs ''user_id'' = Some user_id" and "map_of kwargs ''name'' = Some name"
    and "\<not> (printable user_id \<and> printable name \<and>
           printable (case map_of kwargs ''is_active'' of None \<Rightarrow> VBool True | Some a \<Rightarrow> a))"
  shows "create_user out [] kwargs = Inl ValueError"
proof -
  let ?a = "case map_of kwargs ''is_active'' of None \<Rightarrow> VBool True | Some a \<Rightarrow> a"
  have each: "str_val v = Inl ValueError \<or> (\<exists>s. str_val v = Inr s)" for v
    using str_val_printable [of v] str_val_unprintable [of v] by blast
  from assms(5) consider "\<not> printable name" | "\<not> printable user_id" | "\<not> printable ?a"
    by blast
  then have "fstring [Lit ''Creating user '', Field name, Lit '' (ID: '', Field user_id,
           Lit ''), Active: '', Field ?a] = Inl ValueError"
  proof cases
    case 1
    then show ?thesis
      by (simp add: str_val_unprintable bind_err_Inl)
  next
    case 2
    with each [of name] show ?thesis
      by (auto simp: str_val_unprintable bind_err_Inl bind_err_Inr)
  next
    case 3
    with each [of name] each [of user_id] show ?thesis
      by (auto simp: str_val_unprintable bind_err_Inl bind_err_Inr)
  qed
  then show ?thesis
    unfolding create_user_body [OF assms(1-4)]
    by (simp add: print_fstring_def bind_err_Inl)
qed

lemma create_user_positional:
  assumes "args \<noteq> []"
  shows "\<exists>r. create_user out args kwargs = Inl (TypeError ''create_user'' r)"
proof (cases "first_duplicate [] (map fst kwargs)")
  case (Some k)
  then show ?thesis by (simp add: create_user_def)
next
  case None
  with assms show ?thesis
    unfolding create_user_def
    by (cases "find (\<lambda>k. k \<notin> {''user_id'', ''name'', ''is_active''}) (map fst kwargs)") simp_all
qed

lemma create_user_duplicate:
  assumes "\<not> distinct (map fst kwargs)"
  shows "\<exists>k. create_user out args kwargs = Inl (TypeError ''create_user'' (MultipleValues k))"
proof -
  from first_duplicate_Some [OF assms] obtain k where
    "first_duplicate [] (map fst kwargs) = Some k" ..
  then show ?thesis by (simp add: create_user_def)
qed

section \<open>Closures\<close>

lemma call_make_adder:
  assumes "make_adder h n = (h1, f)" and "extends h1 h'"
  shows "call h' f x = Some (x + n)"
proof -
  from assms(1) have f: "f = Adder (length h)" and h1: "h1 = h @ [n]"
    by (auto simp: make_adder_def alloc_def)
  have "deref h1 (length h) = Some n"
    by (simp add: h1 deref_def)
  moreover have "length h < length h1"
    by (simp add: h1)
  ultimately have "deref h' (length h) = Some n"
    using extends_deref [OF assms(2)] by simp
  then show ?thesis by (simp add: f)
qed

lemma call_make_multiplier:
  assumes "make_multiplier h n = (h1, f)" and "extends h1 h'"
  shows "call h' f x = Some (x * n)"
proof -
  from assms(1) have f: "f = Multiplier (length h)" and h1: "h1 = h @ [n]"
    by (auto simp: make_multiplier_def alloc_def)
  have "deref h1 (length h) = Some n"
    by (simp add: h1 deref_def)
  moreover have "length h < length h1"
    by (simp add: h1)
  ultimately have "deref h' (length h) = Some n"
    using extends_deref [OF assms(2)] by simp
  then show ?thesis by (simp add: f)
qed

lemma make_adder_extends: "extends h (fst (make_adder h n))"
  by (simp add: make_adder_def alloc_def extends_append)

lemma make_multiplier_extends: "extends h (fst (make_multiplier h n))"
  by (simp add: make_multiplier_def alloc_def extends_append)

section \<open>Decimal rendering, iterators and comprehensions\<close>

lemma small_cases: "d < 10 \<Longrightarrow> d \<in> {0, 1, 2, 3, 4, 5, 6, 7, 8, 9::nat}"
  by auto

lemma digit_char_digit: "d < 10 \<Longrightarrow> is_digit (digit_char d)"
  by (drule small_cases) (auto simp: is_digit_def digit_char_def)

lemma digit_value_digit_char: "d < 10 \<Longrightarrow> digit_value (digit_char d) = d"
  by (drule small_cases) (auto simp: digit_value_def digit_char_def)

lemma digit_char_zero: "d < 10 \<Longrightarrow> (digit_char d = CHR ''0'') = (d = 0)"
  by (drule small_cases) (auto simp: digit_char_def)

lemma str_nat_digits: "list_all is_digit (str_nat n)"
proof (induction n rule: str_nat.induct)
  case (1 n)
  show ?case
  proof (cases "n < 10")
    case True
    then show ?thesis by (subst str_nat.simps) (simp add: digit_char_digit)
  next
    case False
    with 1 show ?thesis by (subst str_nat.simps) (simp add: digit_char_digit)
  qed
qed

lemma nat_of_decimal_snoc: "nat_of_decimal (ds @ [c]) = 10 * nat_of_decimal ds + digit_value c"
  by (simp add: nat_of_decimal_def)

lemma nat_of_decimal_str_nat: "nat_of_decimal (str_nat n) = n"
proof (induction n rule: str_nat.induct)
  case (1 n)
  show ?case
  proof (cases "n < 10")
    case True
    then show ?thesis
      by (subst str_nat.simps) (simp add: nat_of_decimal_def digit_value_digit_char)
  next
    case False
    with 1 have "nat_of_decimal (str_nat (n div 10)) = n div 10" by simp
    with False show ?thesis
      by (subst str_nat.simps) (simp add: nat_of_decimal_snoc digit_value_digit_char)
  qed
qed

lemma hd_str_nat_zero: "hd (str_nat n) = CHR ''0'' \<Longrightarrow> n = 0"
proof (induction n rule: str_nat.induct)
  case (1 n)
  show ?case
  proof (cases "n < 10")
    case True
    with "1.prems" show ?thesis
      by (subst (asm) str_nat.simps) (simp add: digit_char_zero)
  next
    case False
    with "1.prems" have "hd (str_nat (n div 10)) = CHR ''0''"
      by (subst (asm) str_nat.simps) (simp add: str_nat_nonempty)
    with False "1.IH" have "n div 10 = 0" by simp
    with False show ?thesis by simp
  qed
qed

lemma str_nat_zero: "str_nat 0 = ''0''"
  by (subst str_nat.simps) (simp add: digit_char_def)

lemma canonical_str_nat: "canonical (str_nat n)"
  unfolding canonical_def
  using str_nat_nonempty str_nat_digits hd_str_nat_zero str_nat_zero by auto

lemma hd_str_nat_not_minus: "hd (str_nat n) \<noteq> CHR ''-''"
proof -
  have "is_digit (hd (str_nat n))"
    using str_nat_digits [of n] str_nat_nonempty [of n]
    by (cases "str_nat n") simp_all
  then show ?thesis by (auto simp: is_digit_def)
qed

lemma decimal_rendering_decimal: "decimal_rendering (decimal x) x"
proof (cases "x < 0")
  case True
  then show ?thesis
    by (simp add: decimal_rendering_def decimal_def canonical_str_nat nat_of_decimal_str_nat)
next
  case False
  obtain c ds where s: "str_nat (nat x) = c # ds"
    using str_nat_nonempty [of "nat x"] by (cases "str_nat (nat x)") auto
  with hd_str_nat_not_minus [of "nat x"] have c: "c \<noteq> CHR ''-''" by simp
  have "canonical (c # ds)" "nat_of_decimal (c # ds) = nat x"
    using canonical_str_nat [of "nat x"] nat_of_decimal_str_nat [of "nat x"] by (simp_all add: s)
  with False c show ?thesis
    by (simp add: decimal_rendering_def decimal_def s)
qed

lemma map_err_results: "(\<forall>x \<in> set xs. f x = Inr (g x)) \<Longrightarrow> map_err f xs = Inr (map g xs)"
  by (induction xs) (simp_all add: bind_err_Inr)

lemma map_err_raises:
  assumes "\<forall>x \<in> set xs. f x = Inl e \<or> (\<exists>y. f x = Inr y)" and "\<exists>x \<in> set xs. f x = Inl e"
  shows "map_err f xs = Inl e"
  using assms
proof (induction xs)
  case Nil
  then show ?case by simp
next
  case (Cons x xs)
  show ?case
  proof (cases "f x")
    case (Inl e')
    with Cons.prems(1) have "e' = e" by auto
    with Inl show ?thesis by (simp add: bind_err_Inl)
  next
    case (Inr y)
    with Cons.prems(2) have "\<exists>x \<in> set xs. f x = Inl e" by auto
    moreover from Cons.prems(1) have "\<forall>x \<in> set xs. f x = Inl e \<or> (\<exists>y. f x = Inr y)" by simp
    ultimately have "map_err f xs = Inl e" by (rule Cons.IH [rotated])
    with Inr show ?thesis by (simp add: bind_err_Inl bind_err_Inr)
  qed
qed

lemma list_of_iterator_map_err:
  "list_of_iterator acc (MapIterator f xs) = bind_err (map_err f xs) (\<lambda>ys. Inr (acc @ ys))"
proof (induction xs arbitrary: acc)
  case Nil
  show ?case by (subst list_of_iterator.simps) (simp add: bind_err_Inr)
next
  case (Cons x xs)
  show ?case
  proof (cases "f x")
    case (Inl e)
    then show ?thesis by (subst list_of_iterator.simps) (simp add: bind_err_Inl)
  next
    case (Inr y)
    then show ?thesis
      by (subst list_of_iterator.simps)
        (cases "map_err f xs"; simp add: Cons.IH bind_err_Inl bind_err_Inr)
  qed
qed

lemma comprehension_loop_map_err:
  "comprehension_loop acc xs = bind_err (map_err format_lambda xs) (\<lambda>ys. Inr (acc @ ys))"
proof (induction xs arbitrary: acc)
  case Nil
  show ?case by (simp add: bind_err_Inr)
next
  case (Cons x xs)
  have step: "comprehension_loop acc (x # xs) =
      bind_err (format_lambda x) (\<lambda>s. comprehension_loop (acc @ [s]) xs)"
    by (simp add: format_lambda_def)
  show ?case
  proof (cases "format_lambda x")
    case (Inl e)
    then show ?thesis by (simp only: step map_err.simps bind_err_Inl)
  next
    case (Inr s)
    then show ?thesis
      unfolding step
      by (cases "map_err format_lambda xs"; simp add: Cons.IH bind_err_Inl bind_err_Inr)
  qed
qed

lemma format_lambda_limit:
  "format_lambda x =
     (if 10 ^ max_str_digits \<le> \<bar>x\<bar> then Inl ValueError
      else Inr (decimal x @ (if even x then '' (even)'' else '' (odd)'')))"
  by (simp add: format_lambda_def str_int_limit bind_err_Inl bind_err_Inr
      even_iff_mod_2_eq_zero)

lemma formatted_list_map_err: "formatted_list xs = map_err format_lambda xs"
  by (cases "map_err format_lambda xs")
    (simp_all add: formatted_list_def list_of_iterator_map_err bind_err_Inl bind_err_Inr)

lemma formatted_lc_map_err: "formatted_lc xs = map_err format_lambda xs"
  by (cases "map_err format_lambda xs")
    (simp_all add: formatted_lc_def comprehension_loop_map_err bind_err_Inl bind_err_Inr)

section \<open>Default arguments\<close>

lemma deref_valid: "deref h r = Some ob \<Longrightarrow> r < length h"
  by (simp add: deref_def split: if_splits)

lemma deref_assign_same: "r < length h \<Longrightarrow> deref (assign h r ob) r = Some ob"
  by (simp add: deref_def assign_def)

lemma deref_assign_other: "r' \<noteq> r \<Longrightarrow> deref (assign h r ob) r' = deref h r'"
  by (simp add: deref_def assign_def)

lemma length_assign: "length (assign h r ob) = length h"
  by (simp add: assign_def)

lemma append_Some: "deref h r = Some xs \<Longrightarrow> append h r x = Some (assign h r (xs @ [x]))"
  by (simp add: append_def)

lemma add_item_good_fresh:
  "add_item_good h item None = Some (h @ [[item]], length h)"
  by (simp add: add_item_good_def alloc_def append_def deref_def assign_def)

lemma add_item_bad_default:
  assumes "deref h d = Some xs"
  shows "add_item_bad d h item None = Some (assign h d (xs @ [item]), d)"
  using assms by (simp add: add_item_bad_def append_Some)

lemma add_item_bad_twice:
  assumes "deref h d = Some xs"
  shows "\<exists>h1 h2. add_item_bad d h a None = Some (h1, d) \<and> deref h1 d = Some (xs @ [a]) \<and>
           add_item_bad d h1 b None = Some (h2, d) \<and> deref h2 d = Some (xs @ [a, b])"
proof -
  let ?h1 = "assign h d (xs @ [a])"
  let ?h2 = "assign ?h1 d ((xs @ [a]) @ [b])"
  from assms have v: "d < length h" by (rule deref_valid)
  have 1: "add_item_bad d h a None = Some (?h1, d)"
    using assms by (rule add_item_bad_default)
  have 2: "deref ?h1 d = Some (xs @ [a])"
    using v by (rule deref_assign_same)
  have 3: "add_item_bad d ?h1 b None = Some (?h2, d)"
    using 2 by (rule add_item_bad_default)
  have "d < length ?h1" using v by (simp add: length_assign)
  then have "deref ?h2 d = Some ((xs @ [a]) @ [b])"
    by (rule deref_assign_same)
  then have 4: "deref ?h2 d = Some (xs @ [a, b])" by simp
  from 1 2 3 4 show ?thesis by blast
qed

section \<open>Counting log levels\<close>

lemma key_eq_VStr: "key_eq v (VStr l) = (v = VStr l)"
  by (cases v) (auto simp: key_eq_def)

lemma lookup_cong: "key_eq k k' \<Longrightarrow> lookup c k = lookup c k'"
proof (induction c)
  case Nil
  show ?case by simp
next
  case (Cons p c)
  obtain k0 v where p: "p = (k0, v)" by (cases p)
  from Cons.prems have "key_eq k0 k = key_eq k0 k'"
    by (auto simp: key_eq_def)
  with Cons show ?case by (simp add: p)
qed

lemma lookup_setitem: "lookup (setitem c k v) k' = (if key_eq k k' then Some v else lookup c k')"
proof (induction c)
  case Nil
  show ?case by simp
next
  case (Cons p c)
  obtain k0 v0 where p: "p = (k0, v0)" by (cases p)
  show ?case
  proof (cases "key_eq k0 k")
    case True
    then have "key_eq k0 k' = key_eq k k'"
      by (auto simp: key_eq_def)
    with True show ?thesis by (simp add: p)
  next
    case False
    then have "key_eq k k' \<Longrightarrow> \<not> key_eq k0 k'"
      by (auto simp: key_eq_def)
    with False Cons.IH show ?thesis by (auto simp: p)
  qed
qed

lemma lookup_increment:
  "lookup (increment c l) k =
     (if key_eq l k then Some ((case lookup c k of None \<Rightarrow> 0 | Some m \<Rightarrow> m) + 1) else lookup c k)"
  using lookup_cong [of l k c] by (simp add: increment_def lookup_setitem)

lemma sum_setitem:
  "sum_list (map snd (setitem c k v)) =
     sum_list (map snd c) - (case lookup c k of None \<Rightarrow> 0 | Some m \<Rightarrow> m) + v"
proof (induction c)
  case Nil
  show ?case by simp
next
  case (Cons p c)
  obtain k0 v0 where p: "p = (k0, v0)" by (cases p)
  show ?case
  proof (cases "key_eq k0 k")
    case True
    then show ?thesis by (simp add: p)
  next
    case False
    then show ?thesis by (simp add: p Cons.IH)
  qed
qed

lemma sum_increment: "sum_list (map snd (increment c l)) = sum_list (map snd c) + 1"
  by (simp add: increment_def sum_setitem)

lemma lookup_Some_mem: "lookup c k = Some m \<Longrightarrow> m \<in> snd ` set c"
proof (induction c)
  case Nil
  then show ?case by simp
next
  case (Cons p c)
  obtain k0 v0 where p: "p = (k0, v0)" by (cases p)
  show ?case
  proof (cases "key_eq k0 k")
    case True
    with Cons.prems show ?thesis by (simp add: p)
  next
    case False
    with Cons.prems have "lookup c k = Some m" by (simp add: p)
    then have "m \<in> snd ` set c" by (rule Cons.IH)
    then show ?thesis by simp
  qed
qed

lemma values_setitem: "snd ` set (setitem c k v) \<subseteq> insert v (snd ` set c)"
proof (induction c)
  case Nil
  show ?case by simp
next
  case (Cons p c)
  obtain k0 v0 where p: "p = (k0, v0)" by (cases p)
  show ?case
  proof (cases "key_eq k0 k")
    case True
    then show ?thesis by (simp add: p) blast
  next
    case False
    with Cons.IH show ?thesis by (simp add: p) blast
  qed
qed

lemma positive_increment:
  assumes "\<forall>m \<in> snd ` set c. 0 < m"
  shows "\<forall>m \<in> snd ` set (increment c l). 0 < m"
proof -
  have new: "0 < (case lookup c l of None \<Rightarrow> 0 | Some m \<Rightarrow> m) + 1"
  proof (cases "lookup c l")
    case None
    then show ?thesis by simp
  next
    case (Some m)
    then have "m \<in> snd ` set c" by (rule lookup_Some_mem)
    with assms have "0 < m" by blast
    with Some show ?thesis by simp
  qed
  show ?thesis
  proof
    fix m
    assume "m \<in> snd ` set (increment c l)"
    with values_setitem [of c l "(case lookup c l of None \<Rightarrow> 0 | Some m \<Rightarrow> m) + 1"]
    have "m = (case lookup c l of None \<Rightarrow> 0 | Some m \<Rightarrow> m) + 1 \<or> m \<in> snd ` set c"
      unfolding increment_def by blast
    with new assms show "0 < m" by blast
  qed
qed

lemma keys_setitem:
  "map (as_key \<circ> fst) (setitem c k v) =
     (if lookup c k = None then map (as_key \<circ> fst) c @ [as_key k] else map (as_key \<circ> fst) c)"
proof (induction c)
  case Nil
  show ?case by simp
next
  case (Cons p c)
  obtain k0 v0 where p: "p = (k0, v0)" by (cases p)
  show ?case
  proof (cases "key_eq k0 k")
    case True
    then show ?thesis by (simp add: p)
  next
    case False
    with Cons.IH show ?thesis by (simp add: p)
  qed
qed

lemma lookup_None_keys: "(lookup c k = None) = (as_key k \<notin> set (map (as_key \<circ> fst) c))"
proof (induction c)
  case Nil
  show ?case by simp
next
  case (Cons p c)
  obtain k0 v0 where p: "p = (k0, v0)" by (cases p)
  show ?case
  proof (cases "key_eq k0 k")
    case True
    then have "as_key k = as_key k0" by (simp add: key_eq_def)
    with True show ?thesis by (simp add: p)
  next
    case False
    then have "as_key k \<noteq> as_key k0" by (auto simp: key_eq_def)
    with False Cons.IH show ?thesis by (simp add: p)
  qed
qed

lemma distinct_increment:
  assumes "distinct (map (as_key \<circ> fst) c)"
  shows "distinct (map (as_key \<circ> fst) (increment c l))"
proof (cases "lookup c l")
  case None
  with lookup_None_keys [of c l] have fresh: "as_key l \<notin> set (map (as_key \<circ> fst) c)"
    by blast
  have "map (as_key \<circ> fst) (increment c l) = map (as_key \<circ> fst) c @ [as_key l]"
    unfolding increment_def keys_setitem using None by simp
  with assms fresh show ?thesis by simp
next
  case (Some m)
  have "map (as_key \<circ> fst) (increment c l) = map (as_key \<circ> fst) c"
    unfolding increment_def keys_setitem using Some by simp
  with assms show ?thesis by simp
qed

lemma tally_Nil: "tally c [] = c"
  by (simp add: tally_def)

lemma tally_Cons: "tally c (l # ls) = tally (increment c l) ls"
  by (simp add: tally_def)

lemma lookup_tally:
  "lookup (tally c ls) k =
     (case lookup c k of
        None \<Rightarrow> if filter (\<lambda>l. key_eq l k) ls = [] then None
                 else Some (int (length (filter (\<lambda>l. key_eq l k) ls)))
      | Some m \<Rightarrow> Some (m + int (length (filter (\<lambda>l. key_eq l k) ls))))"
proof (induction ls arbitrary: c)
  case Nil
  show ?case by (simp add: tally_Nil split: option.splits)
next
  case (Cons l ls)
  show ?case
    unfolding tally_Cons Cons.IH lookup_increment
    by (simp split: option.splits)
qed

lemma sum_tally: "sum_list (map snd (tally c ls)) = sum_list (map snd c) + int (length ls)"
  by (induction ls arbitrary: c) (simp_all add: tally_Nil tally_Cons sum_increment)

lemma positive_tally:
  "\<forall>m \<in> snd ` set c. 0 < m \<Longrightarrow> \<forall>m \<in> snd ` set (tally c ls). 0 < m"
proof (induction ls arbitrary: c)
  case Nil
  then show ?case by (simp add: tally_Nil)
next
  case (Cons l ls)
  from Cons.IH [OF positive_increment [OF Cons.prems]] show ?case
    by (simp add: tally_Cons)
qed

lemma distinct_tally:
  "distinct (map (as_key \<circ> fst) c) \<Longrightarrow> distinct (map (as_key \<circ> fst) (tally c ls))"
proof (induction ls arbitrary: c)
  case Nil
  then show ?case by (simp add: tally_Nil)
next
  case (Cons l ls)
  from Cons.IH [OF distinct_increment [OF Cons.prems]] show ?case
    by (simp add: tally_Cons)
qed

subsection \<open>The loop of \<open>analyze_logs\<close> on the store\<close>

lemma assign_assign: "assign (assign h r a) r b = assign h r b"
  by (simp add: assign_def)

lemma assign_same: "deref h r = Some ob \<Longrightarrow> assign h r ob = h"
  by (auto simp: assign_def deref_def split: if_splits)

lemma count_loop_eval:
  assumes "deref h lc = Some (Counts c)"
    and "list_all2 (\<lambda>r d. deref h r = Some (Entry d)) rs ds"
  shows "count_loop h lc rs = Some (assign h lc (Counts (tally c (map level_of ds))))"
  using assms
proof (induction rs arbitrary: h c ds)
  case Nil
  then show ?case by (simp add: tally_Nil assign_same)
next
  case (Cons r rs)
  from Cons.prems(2) obtain d ds' where ds: "ds = d # ds'"
    and r: "deref h r = Some (Entry d)"
    and rest: "list_all2 (\<lambda>r d. deref h r = Some (Entry d)) rs ds'"
    by (auto simp: list_all2_Cons1)
  let ?h = "assign h lc (Counts (increment c (level_of d)))"
  from Cons.prems(1) have "lc < length h" by (rule deref_valid)
  then have lc: "deref ?h lc = Some (Counts (increment c (level_of d)))"
    by (rule deref_assign_same)
  have rest': "list_all2 (\<lambda>r d. deref ?h r = Some (Entry d)) rs ds'"
  proof (rule list_all2_mono [OF rest])
    fix r' d'
    assume e: "deref h r' = Some (Entry d')"
    with Cons.prems(1) have "r' \<noteq> lc" by auto
    with e show "deref ?h r' = Some (Entry d')" by (simp add: deref_assign_other)
  qed
  have "count_loop h lc (r # rs) = count_loop ?h lc rs"
    using r Cons.prems(1) by (simp add: level_of_def)
  also have "\<dots> = Some (assign ?h lc (Counts (tally (increment c (level_of d)) (map level_of ds'))))"
    by (rule Cons.IH [OF lc rest'])
  finally show ?case
    by (simp add: ds tally_Cons assign_assign)
qed

lemma analyze_logs_eval:
  assumes "deref h logs = Some (EntryList rs)"
    and "list_all2 (\<lambda>r d. deref h r = Some (Entry d)) rs ds"
  shows "analyze_logs h logs =
     Some (h @ [Counts (tally [] (map level_of ds)), Counts (tally [] (map level_of ds))],
           Suc (length h))"
proof -
  let ?h1 = "h @ [Counts []]"
  let ?c = "tally [] (map level_of ds)"
  have ext: "extends h ?h1" by (rule extends_append)
  from assms(1) have "logs < length h" by (rule deref_valid)
  with assms(1) have logs: "deref ?h1 logs = Some (EntryList rs)"
    by (simp add: extends_deref [OF ext])
  have lc: "deref ?h1 (length h) = Some (Counts [])"
    by (simp add: deref_def)
  have es: "list_all2 (\<lambda>r d. deref ?h1 r = Some (Entry d)) rs ds"
  proof (rule list_all2_mono [OF assms(2)])
    fix r d
    assume e: "deref h r = Some (Entry d)"
    then have "r < length h" by (rule deref_valid)
    with e show "deref ?h1 r = Some (Entry d)" by (simp add: extends_deref [OF ext])
  qed
  have loop: "count_loop ?h1 (length h) rs = Some (assign ?h1 (length h) (Counts ?c))"
    by (rule count_loop_eval [OF lc es])
  have h2: "assign ?h1 (length h) (Counts ?c) = h @ [Counts ?c]"
    by (simp add: assign_def)
  have d2: "deref (h @ [Counts ?c]) (length h) = Some (Counts ?c)"
    by (simp add: deref_def)
  show ?thesis
    unfolding analyze_logs_def
    by (simp add: alloc_def logs loop [unfolded alloc_def] h2 d2)
qed

lemma level_of_VStr:
  "(level_of d = VStr l) = (d ''level'' = Some (VStr l) \<or> l = ''UNKNOWN'' \<and> d ''level'' = None)"
  by (cases "d ''level''") (auto simp: level_of_def dict_get_def)

lemma filter_levels:
  "length (filter (\<lambda>v. key_eq v (VStr l)) (map level_of ds)) =
   length (filter (\<lambda>d. d ''level'' = Some (VStr l) \<or> l = ''UNKNOWN'' \<and> d ''level'' = None) ds)"
  by (simp add: filter_map o_def key_eq_VStr level_of_VStr)

lemma lookup_tally_levels:
  "lookup (tally [] (map level_of ds)) (VStr l) =
     (if filter (\<lambda>d. d ''level'' = Some (VStr l) \<or> l = ''UNKNOWN'' \<and> d ''level'' = None) ds = []
      then None
      else Some (int (length (filter
             (\<lambda>d. d ''level'' = Some (VStr l) \<or> l = ''UNKNOWN'' \<and> d ''level'' = None) ds))))"
proof -
  have "(filter (\<lambda>v. key_eq v (VStr l)) (map level_of ds) = []) =
        (filter (\<lambda>d. d ''level'' = Some (VStr l) \<or> l = ''UNKNOWN'' \<and> d ''level'' = None) ds = [])"
    using filter_levels [of l ds] by (simp only: length_0_conv [symmetric])
  then show ?thesis
    by (simp only: lookup_tally lookup.simps option.case filter_levels)
qed

section \<open>Filtering students\<close>



section \<open>Claims\<close>

text \<open>
  C1. For lists of strings \<open>v1\<close> and \<open>v2\<close>, \<open>compare_features\<close> returns three sets
  (common, unique1, unique2): a string is in common iff it occurs in both lists, in unique1
  iff it occurs in \<open>v1\<close> and not in \<open>v2\<close>, in unique2 iff it occurs in \<open>v2\<close> and not in
  \<open>v1\<close>; that is, the result is
  \<open>(set v1 \<inter> set v2, set v1 - set v2, set v2 - set v1)\<close>.
\<close>

theorem compare_features_correct:
  assumes "deref h v1 = Some (SList xs)" and "deref h v2 = Some (SList ys)"
  shows "\<exists>h' c u1 u2 common unique1 unique2.
     compare_features h v1 v2 = Some (h', (c, u1, u2)) \<and>
     deref h' c = Some (SSet common) \<and>
     deref h' u1 = Some (SSet unique1) \<and>
     deref h' u2 = Some (SSet unique2) \<and>
     (\<forall>s. (s \<in> common) = (s \<in> set xs \<and> s \<in> set ys)) \<and>
     (\<forall>s. (s \<in> unique1) = (s \<in> set xs \<and> s \<notin> set ys)) \<and>
     (\<forall>s. (s \<in> unique2) = (s \<in> set ys \<and> s \<notin> set xs)) \<and>
     (common, unique1, unique2) = (set xs \<inter> set ys, set xs - set ys, set ys - set xs)"
  unfolding compare_features_eval [OF assms]
  by (simp add: deref_def nth_append)

theorem compare_features_correct_witness:
  "\<exists>h' c u1 u2.
     compare_features
       [SList [''login'', ''search'', ''profile'', ''upload'', ''report'', ''search''],
        SList [''login'', ''search'', ''dashboard'', ''profile'', ''export'', ''login'']] 0 1
       = Some (h', (c, u1, u2)) \<and>
     deref h' c = Some (SSet {''login'', ''search'', ''profile''}) \<and>
     deref h' u1 = Some (SSet {''upload'', ''report''}) \<and>
     deref h' u2 = Some (SSet {''dashboard'', ''export''})"
proof -
  let ?h = "[SList [''login'', ''search'', ''profile'', ''upload'', ''report'', ''search''],
        SList [''login'', ''search'', ''dashboard'', ''profile'', ''export'', ''login'']]"
  have a: "deref ?h 0 =
      Some (SList [''login'', ''search'', ''profile'', ''upload'', ''report'', ''search''])"
    by (simp add: deref_def)
  have b: "deref ?h 1 =
      Some (SList [''login'', ''search'', ''dashboard'', ''profile'', ''export'', ''login''])"
    by (simp add: deref_def)
  have c: "set [''login'', ''search'', ''profile'', ''upload'', ''report'', ''search''] \<inter>
    set [''login'', ''search'', ''dashboard'', ''profile'', ''export'', ''login'']
     = {''login'', ''search'', ''profile''}"
    by auto
  have d: "set [''login'', ''search'', ''profile'', ''upload'', ''report'', ''search''] -
    set [''login'', ''search'', ''dashboard'', ''profile'', ''export'', ''login'']
     = {''upload'', ''report''}"
    by auto
  have e: "set [''login'', ''search'', ''dashboard'', ''profile'', ''export'', ''login''] -
    set [''login'', ''search'', ''profile'', ''upload'', ''report'', ''search'']
     = {''dashboard'', ''export''}"
    by auto
  from compare_features_correct [OF a b] obtain h' r u1 u2 common unique1 unique2 where
    run: "compare_features ?h 0 1 = Some (h', (r, u1, u2))" and
    objs: "deref h' r = Some (SSet common)" "deref h' u1 = Some (SSet unique1)"
      "deref h' u2 = Some (SSet unique2)" and
    sets: "(common, unique1, unique2) =
      (set [''login'', ''search'', ''profile'', ''upload'', ''report'', ''search''] \<inter>
       set [''login'', ''search'', ''dashboard'', ''profile'', ''export'', ''login''],
       set [''login'', ''search'', ''profile'', ''upload'', ''report'', ''search''] -
       set [''login'', ''search'', ''dashboard'', ''profile'', ''export'', ''login''],
       set [''login'', ''search'', ''dashboard'', ''profile'', ''export'', ''login''] -
       set [''login'', ''search'', ''profile'', ''upload'', ''report'', ''search''])"
    by blast
  from sets c d e have "common = {''login'', ''search'', ''profile''}"
    "unique1 = {''upload'', ''report''}" "unique2 = {''dashboard'', ''export''}"
    by simp_all
  with run objs show ?thesis by blast
qed

text \<open>
  C2. \<open>generate_pairings\<close> returns the empty list for fewer than two teams, and
  otherwise the 2-element combinations in the order of \<open>itertools.combinations\<close>: one
  pair \<open>(teams[i], teams[j])\<close> for every \<open>i < j\<close>, in lexicographic order of the
  indices; the result has \<open>n * (n - 1) / 2\<close> elements, and for distinct teams no pair
  appears twice or in both orders.
\<close>

theorem generate_pairings_correct:
  "(length teams < 2 \<longrightarrow> generate_pairings teams = []) \<and>
   generate_pairings teams =
     [[teams ! i, teams ! j]. i \<leftarrow> [0..<length teams], j \<leftarrow> [Suc i..<length teams]] \<and>
   length (generate_pairings teams) = length teams * (length teams - 1) div 2 \<and>
   (distinct teams \<longrightarrow>
      distinct (generate_pairings teams) \<and>
      (\<forall>a b. [a, b] \<in> set (generate_pairings teams) \<longrightarrow> [b, a] \<notin> set (generate_pairings teams)))"
proof -
  have short: "combinations teams 2 = []" if "length teams < 2"
  proof -
    from that have "length teams * (length teams - 1) div 2 = 0"
      by (cases teams; cases "tl teams") auto
    then show ?thesis using length_combinations_2 [of teams] by simp
  qed
  then have eq: "generate_pairings teams = combinations teams 2"
    by (simp add: generate_pairings_def)
  have a: "length teams < 2 \<longrightarrow> generate_pairings teams = []"
    by (simp add: generate_pairings_def)
  have b: "generate_pairings teams =
     [[teams ! i, teams ! j]. i \<leftarrow> [0..<length teams], j \<leftarrow> [Suc i..<length teams]]"
    unfolding eq by (rule combinations_2)
  have c: "length (generate_pairings teams) = length teams * (length teams - 1) div 2"
    unfolding eq by (rule length_combinations_2)
  have d: "distinct teams \<longrightarrow>
      distinct (generate_pairings teams) \<and>
      (\<forall>a b. [a, b] \<in> set (generate_pairings teams) \<longrightarrow> [b, a] \<notin> set (generate_pairings teams))"
    unfolding eq using distinct_combinations [of teams 2] pair_not_reversed [of teams]
    by blast
  show ?thesis
    by (rule conjI [OF a conjI [OF b conjI [OF c d]]])
qed

theorem generate_pairings_correct_witness:
  "generate_pairings [''Team A''] = [] \<and>
   generate_pairings [''Eagles'', ''Sharks'', ''Lions'', ''Bears''] =
     [[''Eagles'', ''Sharks''], [''Eagles'', ''Lions''], [''Eagles'', ''Bears''],
      [''Sharks'', ''Lions''], [''Sharks'', ''Bears''], [''Lions'', ''Bears'']] \<and>
   length (generate_pairings [''Eagles'', ''Sharks'', ''Lions'', ''Bears'']) = 6 \<and>
   distinct (generate_pairings [''Eagles'', ''Sharks'', ''Lions'', ''Bears'']) \<and>
   [''Sharks'', ''Eagles''] \<notin> set (generate_pairings [''Eagles'', ''Sharks'', ''Lions'', ''Bears''])"
proof -
  let ?t = "[''Eagles'', ''Sharks'', ''Lions'', ''Bears'']"
  have d: "distinct ?t"
    by simp
  have v: "generate_pairings ?t =
     [[''Eagles'', ''Sharks''], [''Eagles'', ''Lions''], [''Eagles'', ''Bears''],
      [''Sharks'', ''Lions''], [''Sharks'', ''Bears''], [''Lions'', ''Bears'']]"
    by (simp add: generate_pairings_def numeral_2_eq_2)
  have m: "[''Eagles'', ''Sharks''] \<in> set (generate_pairings ?t)"
    unfolding v by simp
  note small = generate_pairings_correct [of "[''Team A'']"]
  note th = generate_pairings_correct [of ?t]
  have e: "generate_pairings [''Team A''] = []"
    using small by simp
  have "length (generate_pairings ?t) = length ?t * (length ?t - 1) div 2"
    using th by blast
  then have len: "length (generate_pairings ?t) = 6"
    by simp
  have dd: "distinct (generate_pairings ?t)"
    using th d by blast
  have nr: "[''Sharks'', ''Eagles''] \<notin> set (generate_pairings ?t)"
    using th d m by blast
  from e v len dd nr show ?thesis
    by blast
qed

text \<open>
  C4. For every dictionary \<open>d\<close> and key \<open>k\<close>: \<open>d[k]\<close> raises \<open>KeyError\<close>
  exactly when \<open>k\<close> is not a key of \<open>d\<close> and returns the value otherwise;
  \<open>d.get(k)\<close> returns the value of a key that is present and \<open>None\<close> for one
  that is absent; \<open>d.get(k, default)\<close> returns \<open>default\<close> for an absent key. The
  demonstration cell catches the \<open>KeyError\<close>: it ends without an exception, having
  printed the output the notebook records.
\<close>

theorem dictionary_access:
  "(getitem d k = Inl (KeyError k)) = (k \<notin> dom d) \<and>
   (\<forall>v. (getitem d k = Inr v) = (d k = Some v)) \<and>
   (d k = Some v \<longrightarrow> dict_get d k VNone = v \<and> dict_get d k dflt = v) \<and>
   (k \<notin> dom d \<longrightarrow> dict_get d k VNone = VNone \<and> dict_get d k dflt = dflt) \<and>
   access_cell = Inr (unlines
     [''Access with []: Theme = dark'',
      ''Error accessing non-existent key with []: '' @ [CHR 0x27] @ ''fontFamily'' @ [CHR 0x27],
      [],
      ''Access with .get(): Font Size = 12'',
      ''Access with .get() (key missing): Font Family = None'',
      ''Access with .get() (defaulted): Font Family = Monospace''])"
proof -
  have a: "(getitem d k = Inl (KeyError k)) = (k \<notin> dom d)"
    by (auto simp: getitem_def split: option.splits)
  have b: "\<forall>v. (getitem d k = Inr v) = (d k = Some v)"
    by (auto simp: getitem_def split: option.splits)
  have c: "d k = Some v \<longrightarrow> dict_get d k VNone = v \<and> dict_get d k dflt = v"
    by (simp add: dict_get_def)
  have e: "k \<notin> dom d \<longrightarrow> dict_get d k VNone = VNone \<and> dict_get d k dflt = dflt"
    by (auto simp: dict_get_def split: option.splits)
  show ?thesis
    by (rule conjI [OF a conjI [OF b conjI [OF c conjI [OF e access_cell_eval]]]])
qed

theorem dictionary_access_witness:
  "getitem settings ''fontFamily'' = Inl (KeyError ''fontFamily'') \<and>
   dict_get settings ''fontFamily'' VNone = VNone \<and>
   dict_get settings ''fontFamily'' (VStr ''Monospace'') = VStr ''Monospace'' \<and>
   getitem settings ''fontSize'' = Inr (VInt 12) \<and>
   dict_get settings ''fontSize'' VNone = VInt 12 \<and>
   dict_get settings ''fontSize'' (VStr ''Monospace'') = VInt 12"
proof -
  have absent: "''fontFamily'' \<notin> dom settings"
    by (simp add: settings_def)
  have present: "settings ''fontSize'' = Some (VInt 12)"
    by (simp add: settings_def)
  note missing = dictionary_access [of settings "''fontFamily''" VNone "VStr ''Monospace''"]
  note found = dictionary_access [of settings "''fontSize''" "VInt 12" "VStr ''Monospace''"]
  from missing absent have m: "getitem settings ''fontFamily'' = Inl (KeyError ''fontFamily'')"
    "dict_get settings ''fontFamily'' VNone = VNone"
    "dict_get settings ''fontFamily'' (VStr ''Monospace'') = VStr ''Monospace''"
    by blast+
  from found present have f: "getitem settings ''fontSize'' = Inr (VInt 12)"
    "dict_get settings ''fontSize'' VNone = VInt 12"
    "dict_get settings ''fontSize'' (VStr ''Monospace'') = VInt 12"
    by blast+
  from m f show ?thesis by blast
qed

text \<open>
  C5. \<open>create_user\<close> accepts keyword arguments only. A call without positional
  arguments whose keywords are distinct names among \<open>user_id\<close>, \<open>name\<close> and
  \<open>is_active\<close> and give \<open>user_id\<close> and \<open>name\<close> returns the dictionary
  \<open>{"id": user_id, "name": name, "active": is_active}\<close>, where \<open>is_active\<close> is
  \<open>True\<close> when the call leaves it out, provided that no integer among the three values
  has more than 4300 decimal digits; when one has, the call raises \<open>ValueError\<close>. A call
  that gives a keyword twice raises \<open>TypeError\<close>, and so does every call with a
  positional argument. The demonstration catches that \<open>TypeError\<close>: it ends without an
  exception, having printed the output the notebook records.
\<close>

theorem create_user_keyword_only:
  "(distinct (map fst kwargs) \<longrightarrow>
    set (map fst kwargs) \<subseteq> {''user_id'', ''name'', ''is_active''} \<longrightarrow>
    map_of kwargs ''user_id'' = Some user_id \<longrightarrow> map_of kwargs ''name'' = Some name \<longrightarrow>
      (printable user_id \<and> printable name \<and>
       printable (case map_of kwargs ''is_active'' of None \<Rightarrow> VBool True | Some a \<Rightarrow> a) \<longrightarrow>
         (\<exists>out'. create_user out [] kwargs =
            Inr (out', [''id'' \<mapsto> user_id, ''name'' \<mapsto> name,
                        ''active'' \<mapsto> (case map_of kwargs ''is_active'' of
                                          None \<Rightarrow> VBool True | Some a \<Rightarrow> a)]))) \<and>
      (\<not> (printable user_id \<and> printable name \<and>
          printable (case map_of kwargs ''is_active'' of None \<Rightarrow> VBool True | Some a \<Rightarrow> a)) \<longrightarrow>
         create_user out [] kwargs = Inl ValueError)) \<and>
   (\<not> distinct (map fst kwargs) \<longrightarrow>
      (\<exists>k. create_user out args kwargs = Inl (TypeError ''create_user'' (MultipleValues k)))) \<and>
   (args \<noteq> [] \<longrightarrow> (\<exists>r. create_user out args kwargs = Inl (TypeError ''create_user'' r))) \<and>
   create_user_demo = Inr (unlines
     [''--- Keyword-Only Arguments (bare *) --- '',
      ''Creating user Alice (ID: 101), Active: True'',
      ''Creating user Bob (ID: 102), Active: False'',
      ''Caught expected TypeError: create_user() takes 0 positional arguments but 2 were given''])"
proof -
  have a: "distinct (map fst kwargs) \<longrightarrow>
    set (map fst kwargs) \<subseteq> {''user_id'', ''name'', ''is_active''} \<longrightarrow>
    map_of kwargs ''user_id'' = Some user_id \<longrightarrow> map_of kwargs ''name'' = Some name \<longrightarrow>
      (printable user_id \<and> printable name \<and>
       printable (case map_of kwargs ''is_active'' of None \<Rightarrow> VBool True | Some a \<Rightarrow> a) \<longrightarrow>
         (\<exists>out'. create_user out [] kwargs =
            Inr (out', [''id'' \<mapsto> user_id, ''name'' \<mapsto> name,
                        ''active'' \<mapsto> (case map_of kwargs ''is_active'' of
                                          None \<Rightarrow> VBool True | Some a \<Rightarrow> a)]))) \<and>
      (\<not> (printable user_id \<and> printable name \<and>
          printable (case map_of kwargs ''is_active'' of None \<Rightarrow> VBool True | Some a \<Rightarrow> a)) \<longrightarrow>
         create_user out [] kwargs = Inl ValueError)"
    using create_user_returns [of kwargs user_id name out]
      create_user_unprintable [of kwargs user_id name out]
    by (intro impI conjI) blast+
  have b: "\<not> distinct (map fst kwargs) \<longrightarrow>
      (\<exists>k. create_user out args kwargs = Inl (TypeError ''create_user'' (MultipleValues k)))"
    using create_user_duplicate [of kwargs out args] by blast
  have c: "args \<noteq> [] \<longrightarrow> (\<exists>r. create_user out args kwargs = Inl (TypeError ''create_user'' r))"
    using create_user_positional [of args out kwargs] by blast
  show ?thesis
    by (rule conjI [OF a conjI [OF b conjI [OF c create_user_demo_eval]]])
qed

theorem create_user_keyword_only_witness:
  "(\<exists>out'. create_user [] [] [(''name'', VStr ''Alice''), (''user_id'', VInt 101)] =
       Inr (out', [''id'' \<mapsto> VInt 101, ''name'' \<mapsto> VStr ''Alice'', ''active'' \<mapsto> VBool True])) \<and>
   (\<exists>out'. create_user [] [] [(''user_id'', VInt 102), (''name'', VStr ''Bob''), (''is_active'', VBool False)] =
       Inr (out', [''id'' \<mapsto> VInt 102, ''name'' \<mapsto> VStr ''Bob'', ''active'' \<mapsto> VBool False])) \<and>
   create_user [] [] [(''user_id'', VInt (10 ^ 4300)), (''name'', VStr ''Alice'')] = Inl ValueError \<and>
   (\<exists>k. create_user [] [] [(''user_id'', VInt 1), (''name'', VStr ''a''), (''name'', VStr ''b'')] =
       Inl (TypeError ''create_user'' (MultipleValues k))) \<and>
   (\<exists>r. create_user [] [VInt 103, VStr ''Charlie''] [] = Inl (TypeError ''create_user'' r)) \<and>
   (\<exists>r. create_user [] [VInt 103] [(''name'', VStr ''Charlie'')] = Inl (TypeError ''create_user'' r))"
proof -
  let ?alice = "[(''name'', VStr ''Alice''), (''user_id'', VInt 101)]"
  let ?bob = "[(''user_id'', VInt 102), (''name'', VStr ''Bob''), (''is_active'', VBool False)]"
  let ?big = "[(''user_id'', VInt (10 ^ 4300)), (''name'', VStr ''Alice'')]"
  let ?twice = "[(''user_id'', VInt 1), (''name'', VStr ''a''), (''name'', VStr ''b'')]"
  have p101: "printable (VInt 101)" and p102: "printable (VInt 102)"
    by (rule printable_small, simp)+
  have pstr: "printable (VStr s)" and pbool: "printable (VBool t)" for s t
    by (simp_all add: printable_def)
  note alice = create_user_keyword_only [where kwargs = ?alice and user_id = "VInt 101"
      and name = "VStr ''Alice''" and out = "[]", THEN conjunct1, rule_format, THEN conjunct1,
      rule_format]
  have a: "\<exists>out'. create_user [] [] ?alice =
       Inr (out', [''id'' \<mapsto> VInt 101, ''name'' \<mapsto> VStr ''Alice'', ''active'' \<mapsto> VBool True])"
    using alice p101 pstr pbool by simp
  note bob = create_user_keyword_only [where kwargs = ?bob and user_id = "VInt 102"
      and name = "VStr ''Bob''" and out = "[]", THEN conjunct1, rule_format, THEN conjunct1,
      rule_format]
  have b: "\<exists>out'. create_user [] [] ?bob =
       Inr (out', [''id'' \<mapsto> VInt 102, ''name'' \<mapsto> VStr ''Bob'', ''active'' \<mapsto> VBool False])"
    using bob p102 pstr pbool by simp
  note big = create_user_keyword_only [where kwargs = ?big and user_id = "VInt (10 ^ 4300)"
      and name = "VStr ''Alice''" and out = "[]", THEN conjunct1, rule_format, THEN conjunct2,
      rule_format]
  have v: "create_user [] [] ?big = Inl ValueError"
    using big unprintable_limit unfolding at_limit by simp
  note twice = create_user_keyword_only [where kwargs = ?twice and out = "[]" and args = "[]",
      THEN conjunct2, THEN conjunct1, rule_format]
  have t: "\<exists>k. create_user [] [] ?twice = Inl (TypeError ''create_user'' (MultipleValues k))"
    using twice by simp
  note charlie = create_user_keyword_only [where kwargs = "[]" and out = "[]"
      and args = "[VInt 103, VStr ''Charlie'']", THEN conjunct2, THEN conjunct2, THEN conjunct1,
      rule_format]
  have c: "\<exists>r. create_user [] [VInt 103, VStr ''Charlie''] [] = Inl (TypeError ''create_user'' r)"
    using charlie by simp
  note mixed = create_user_keyword_only [where kwargs = "[(''name'', VStr ''Charlie'')]"
      and out = "[]" and args = "[VInt 103]", THEN conjunct2, THEN conjunct2, THEN conjunct1,
      rule_format]
  have d: "\<exists>r. create_user [] [VInt 103] [(''name'', VStr ''Charlie'')] = Inl (TypeError ''create_user'' r)"
    using mixed by simp
  show ?thesis
    by (rule conjI [OF a conjI [OF b conjI [OF v conjI [OF t conjI [OF c d]]]]])
qed

theorem create_user_keyword_only_counterexample:
  "create_user [] [] [(''user_id'', VInt (10 ^ 4300)), (''name'', VStr ''Alice'')] = Inl ValueError \<and>
   create_user [] [] [(''user_id'', VInt 1), (''name'', VStr ''a''), (''name'', VStr ''b'')] =
     Inl (TypeError ''create_user'' (MultipleValues ''name''))"
proof -
  have a: "create_user [] [] [(''user_id'', VInt (10 ^ 4300)), (''name'', VStr ''Alice'')] =
      Inl ValueError"
    unfolding at_limit
    by (rule create_user_unprintable [where user_id = "VInt (10 ^ max_str_digits)"
          and name = "VStr ''Alice''"])
      (simp_all add: unprintable_limit)
  have b: "create_user [] [] [(''user_id'', VInt 1), (''name'', VStr ''a''), (''name'', VStr ''b'')] =
     Inl (TypeError ''create_user'' (MultipleValues ''name''))"
    by (simp add: create_user_def)
  show ?thesis
    by (rule conjI [OF a b])
qed

text \<open>
  C7. The closure factories capture their argument per call: for all integers \<open>n\<close> and
  \<open>x\<close>, \<open>make_adder(n)(x) = x + n\<close> and \<open>make_multiplier(n)(x) = x * n\<close>; a
  closure keeps its captured value when another call of the factory makes another closure,
  and whatever is allocated later.
\<close>

theorem closures_capture:
  "call (fst (make_adder h n)) (snd (make_adder h n)) x = Some (x + n) \<and>
   call (fst (make_multiplier h n)) (snd (make_multiplier h n)) x = Some (x * n) \<and>
   (make_adder h n = (h1, f) \<longrightarrow> make_adder h1 m = (h2, g) \<longrightarrow>
      call h2 f x = Some (x + n) \<and> call h2 g x = Some (x + m)) \<and>
   (make_multiplier h n = (h1, f) \<longrightarrow> make_multiplier h1 m = (h2, g) \<longrightarrow>
      call h2 f x = Some (x * n) \<and> call h2 g x = Some (x * m)) \<and>
   (make_adder h n = (h1, f) \<longrightarrow> extends h1 h' \<longrightarrow> call h' f x = Some (x + n)) \<and>
   (make_multiplier h n = (h1, f) \<longrightarrow> extends h1 h' \<longrightarrow> call h' f x = Some (x * n))"
proof -
  have a: "call (fst (make_adder h n)) (snd (make_adder h n)) x = Some (x + n)"
    by (rule call_make_adder [OF _ extends_refl]) simp
  have b: "call (fst (make_multiplier h n)) (snd (make_multiplier h n)) x = Some (x * n)"
    by (rule call_make_multiplier [OF _ extends_refl]) simp
  have c: "make_adder h n = (h1, f) \<longrightarrow> make_adder h1 m = (h2, g) \<longrightarrow>
      call h2 f x = Some (x + n) \<and> call h2 g x = Some (x + m)"
  proof (intro impI conjI)
    assume 1: "make_adder h n = (h1, f)" and 2: "make_adder h1 m = (h2, g)"
    from 2 make_adder_extends [of h1 m] have "extends h1 h2" by simp
    with 1 show "call h2 f x = Some (x + n)" by (rule call_make_adder)
    from 2 extends_refl show "call h2 g x = Some (x + m)" by (rule call_make_adder)
  qed
  have d: "make_multiplier h n = (h1, f) \<longrightarrow> make_multiplier h1 m = (h2, g) \<longrightarrow>
      call h2 f x = Some (x * n) \<and> call h2 g x = Some (x * m)"
  proof (intro impI conjI)
    assume 1: "make_multiplier h n = (h1, f)" and 2: "make_multiplier h1 m = (h2, g)"
    from 2 make_multiplier_extends [of h1 m] have "extends h1 h2" by simp
    with 1 show "call h2 f x = Some (x * n)" by (rule call_make_multiplier)
    from 2 extends_refl show "call h2 g x = Some (x * m)" by (rule call_make_multiplier)
  qed
  have e: "make_adder h n = (h1, f) \<longrightarrow> extends h1 h' \<longrightarrow> call h' f x = Some (x + n)"
    using call_make_adder by blast
  have g: "make_multiplier h n = (h1, f) \<longrightarrow> extends h1 h' \<longrightarrow> call h' f x = Some (x * n)"
    using call_make_multiplier by blast
  show ?thesis
    by (rule conjI [OF a conjI [OF b conjI [OF c conjI [OF d conjI [OF e g]]]]])
qed


theorem closures_capture_witness:
  "make_adder [] 5 = ([5], Adder 0) \<and> make_adder [5] 100 = ([5, 100], Adder 1) \<and>
   call [5, 100] (Adder 0) 10 = Some 15 \<and> call [5, 100] (Adder 0) 20 = Some 25 \<and>
   call [5, 100] (Adder 1) 10 = Some 110 \<and>
   make_multiplier [] 2 = ([2], Multiplier 0) \<and> make_multiplier [2] 3 = ([2, 3], Multiplier 1) \<and>
   call [2, 3] (Multiplier 0) 10 = Some 20 \<and> call [2, 3] (Multiplier 1) 10 = Some 30 \<and>
   extends [5] [5, 100, 7 :: int] \<and> call [5, 100, 7] (Adder 0) 1 = Some 6 \<and>
   extends [2] [2, 3, 7 :: int] \<and> call [2, 3, 7] (Multiplier 0) 4 = Some 8"
proof -
  have a5: "make_adder [] 5 = ([5], Adder 0)"
    by (simp add: make_adder_def alloc_def)
  have a100: "make_adder [5] 100 = ([5, 100], Adder 1)"
    by (simp add: make_adder_def alloc_def)
  have m2: "make_multiplier [] 2 = ([2], Multiplier 0)"
    by (simp add: make_multiplier_def alloc_def)
  have m3: "make_multiplier [2] 3 = ([2, 3], Multiplier 1)"
    by (simp add: make_multiplier_def alloc_def)
  have e1: "extends [5] [5, 100, 7::int]" and e2: "extends [2] [2, 3, 7::int]"
    by (simp_all add: extends_def)
  note t10 = closures_capture [of "[]" 5 10 "[5]" "Adder 0" 100 "[5, 100]" "Adder 1" "[5, 100, 7]"]
  note t20 = closures_capture [of "[]" 5 20 "[5]" "Adder 0" 100 "[5, 100]" "Adder 1" "[5, 100, 7]"]
  note t1 = closures_capture [of "[]" 5 1 "[5]" "Adder 0" 100 "[5, 100]" "Adder 1" "[5, 100, 7]"]
  note u10 = closures_capture [of "[]" 2 10 "[2]" "Multiplier 0" 3 "[2, 3]" "Multiplier 1" "[2, 3, 7]"]
  note u4 = closures_capture [of "[]" 2 4 "[2]" "Multiplier 0" 3 "[2, 3]" "Multiplier 1" "[2, 3, 7]"]
  from t10 a5 a100 have "call [5, 100] (Adder 0) 10 = Some (10 + 5)"
    "call [5, 100] (Adder 1) 10 = Some (10 + 100)"
    by blast+
  then have c1: "call [5, 100] (Adder 0) 10 = Some 15" "call [5, 100] (Adder 1) 10 = Some 110"
    by simp_all
  from t20 a5 a100 have "call [5, 100] (Adder 0) 20 = Some (20 + 5)"
    by blast
  then have c2: "call [5, 100] (Adder 0) 20 = Some 25"
    by simp
  from t1 a5 e1 have "call [5, 100, 7] (Adder 0) 1 = Some (1 + 5)"
    by blast
  then have c3: "call [5, 100, 7] (Adder 0) 1 = Some 6"
    by simp
  from u10 m2 m3 have "call [2, 3] (Multiplier 0) 10 = Some (10 * 2)"
    "call [2, 3] (Multiplier 1) 10 = Some (10 * 3)"
    by blast+
  then have c4: "call [2, 3] (Multiplier 0) 10 = Some 20" "call [2, 3] (Multiplier 1) 10 = Some 30"
    by simp_all
  from u4 m2 e2 have "call [2, 3, 7] (Multiplier 0) 4 = Some (4 * 2)"
    by blast
  then have c5: "call [2, 3, 7] (Multiplier 0) 4 = Some 8"
    by simp
  from a5 a100 m2 m3 e1 e2 c1 c2 c3 c4 c5 show ?thesis
    by (intro conjI)
qed

text \<open>
  C8. In the conditional-formatting cell the \<open>map\<close>/\<open>lambda\<close> pipeline and
  the list comprehension have the same outcome for every list of integers. When no element
  has more than 4300 decimal digits, both give the list whose elements are the decimal
  rendering of \<open>x\<close> followed by \<open>" (even)"\<close> when \<open>x\<close> is even and by
  \<open>" (odd)"\<close> otherwise; when an element has more, both raise \<open>ValueError\<close>.
\<close>

theorem formatting_equivalent:
  "formatted_list xs = formatted_lc xs \<and>
   ((\<forall>x \<in> set xs. \<bar>x\<bar> < 10 ^ max_str_digits) \<longrightarrow>
      formatted_list xs =
        Inr (map (\<lambda>x. decimal x @ (if even x then '' (even)'' else '' (odd)'')) xs)) \<and>
   ((\<exists>x \<in> set xs. 10 ^ max_str_digits \<le> \<bar>x\<bar>) \<longrightarrow> formatted_list xs = Inl ValueError) \<and>
   list_all (\<lambda>x. decimal_rendering (decimal x) x) xs"
proof -
  have a: "formatted_list xs = formatted_lc xs"
    by (simp only: formatted_list_map_err formatted_lc_map_err)
  have b: "(\<forall>x \<in> set xs. \<bar>x\<bar> < 10 ^ max_str_digits) \<longrightarrow>
      formatted_list xs =
        Inr (map (\<lambda>x. decimal x @ (if even x then '' (even)'' else '' (odd)'')) xs)"
  proof
    assume "\<forall>x \<in> set xs. \<bar>x\<bar> < 10 ^ max_str_digits"
    then have "\<forall>x \<in> set xs. format_lambda x =
        Inr (decimal x @ (if even x then '' (even)'' else '' (odd)''))"
      by (simp add: format_lambda_limit not_le)
    then show "formatted_list xs =
        Inr (map (\<lambda>x. decimal x @ (if even x then '' (even)'' else '' (odd)'')) xs)"
      unfolding formatted_list_map_err by (rule map_err_results)
  qed
  have c: "(\<exists>x \<in> set xs. 10 ^ max_str_digits \<le> \<bar>x\<bar>) \<longrightarrow> formatted_list xs = Inl ValueError"
  proof
    assume "\<exists>x \<in> set xs. 10 ^ max_str_digits \<le> \<bar>x\<bar>"
    then have 1: "\<exists>x \<in> set xs. format_lambda x = Inl ValueError"
      by (simp add: format_lambda_limit)
    have 2: "\<forall>x \<in> set xs. format_lambda x = Inl ValueError \<or> (\<exists>y. format_lambda x = Inr y)"
      by (simp add: format_lambda_limit)
    show "formatted_list xs = Inl ValueError"
      unfolding formatted_list_map_err using 2 1 by (rule map_err_raises)
  qed
  have d: "list_all (\<lambda>x. decimal_rendering (decimal x) x) xs"
    by (simp add: list_all_iff decimal_rendering_decimal)
  show ?thesis
    by (rule conjI [OF a conjI [OF b conjI [OF c d]]])
qed

theorem formatting_equivalent_witness:
  "formatted_list [10, 3, 8, 9, 4] =
     Inr [''10 (even)'', ''3 (odd)'', ''8 (even)'', ''9 (odd)'', ''4 (even)''] \<and>
   formatted_lc [10, 3, 8, 9, 4] =
     Inr [''10 (even)'', ''3 (odd)'', ''8 (even)'', ''9 (odd)'', ''4 (even)''] \<and>
   formatted_list [10, 10 ^ 4300, 3] = Inl ValueError \<and>
   formatted_lc [10, 10 ^ 4300, 3] = Inl ValueError \<and>
   decimal_rendering ''10'' 10"
proof -
  note th = formatting_equivalent [of "[10, 3, 8, 9, 4]"]
  note big = formatting_equivalent [of "[10, 10 ^ 4300, 3]"]
  have small: "\<forall>x \<in> set [10, 3, 8, 9, 4 :: int]. \<bar>x\<bar> < 10 ^ max_str_digits"
  proof
    fix x :: int
    assume "x \<in> set [10, 3, 8, 9, 4]"
    then have "\<bar>x\<bar> < 10 ^ 4" by auto
    then show "\<bar>x\<bar> < 10 ^ max_str_digits" by (rule small_below_limit)
  qed
  have s: "map (\<lambda>x. decimal x @ (if even x then '' (even)'' else '' (odd)'')) [10, 3, 8, 9, 4] =
     [''10 (even)'', ''3 (odd)'', ''8 (even)'', ''9 (odd)'', ''4 (even)'']"
    by (simp add: decimal_def str_nat.simps digit_char_def)
  have t: "decimal 10 = ''10''"
    by (simp add: decimal_def str_nat.simps digit_char_def)
  from th [THEN conjunct2, THEN conjunct1, THEN mp, OF small]
  have a: "formatted_list [10, 3, 8, 9, 4] =
     Inr [''10 (even)'', ''3 (odd)'', ''8 (even)'', ''9 (odd)'', ''4 (even)'']"
    by (simp only: s)
  have b: "formatted_lc [10, 3, 8, 9, 4] =
     Inr [''10 (even)'', ''3 (odd)'', ''8 (even)'', ''9 (odd)'', ''4 (even)'']"
    by (rule trans [OF th [THEN conjunct1, symmetric] a])
  have over: "\<exists>x \<in> set [10, 10 ^ 4300, 3 :: int]. 10 ^ max_str_digits \<le> \<bar>x\<bar>"
    unfolding at_limit using limit_reached by simp
  from big [THEN conjunct2, THEN conjunct2, THEN conjunct1, THEN mp, OF over]
  have c: "formatted_list [10, 10 ^ 4300, 3] = Inl ValueError" .
  have d: "formatted_lc [10, 10 ^ 4300, 3] = Inl ValueError"
    by (rule trans [OF big [THEN conjunct1, symmetric] c])
  from th [THEN conjunct2, THEN conjunct2, THEN conjunct2] have "decimal_rendering (decimal 10) 10"
    by simp
  with t have e: "decimal_rendering ''10'' 10"
    by simp
  show ?thesis
    by (rule conjI [OF a conjI [OF b conjI [OF c conjI [OF d e]]]])
qed

theorem formatting_equivalent_counterexample:
  "formatted_list [10 ^ 4300] = Inl ValueError \<and> formatted_lc [10 ^ 4300] = Inl ValueError"
proof -
  have f: "format_lambda (10 ^ max_str_digits) = Inl ValueError"
    using limit_reached by (simp only: format_lambda_limit if_True)
  have "map_err format_lambda [10 ^ max_str_digits] = Inl ValueError"
    by (simp only: map_err.simps f bind_err_Inl)
  then show ?thesis
    unfolding at_limit
    by (simp only: formatted_list_map_err formatted_lc_map_err)
qed

text \<open>
  C9. \<open>add_item_good\<close> called without \<open>target_list\<close> returns, in every store (so
  after any number of calls), a new list that holds just the item, and leaves the objects of
  the store as they were. \<open>add_item_bad\<close> does not: calls without \<open>target_list\<close>
  share the default list, so both of two such calls return the reference of that one list,
  and after \<open>add_item_bad(a)\<close> and \<open>add_item_bad(b)\<close> it holds \<open>a\<close> and
  \<open>b\<close> after what it held before (nothing, right after the \<open>def\<close>).
\<close>

theorem add_item_defaults:
  "(add_item_good h item None = Some (h @ [[item]], length h) \<and>
    deref (h @ [[item]]) (length h) = Some [item] \<and> extends h (h @ [[item]])) \<and>
   (deref h d = Some xs \<longrightarrow>
      (\<exists>h1 h2. add_item_bad d h a None = Some (h1, d) \<and> deref h1 d = Some (xs @ [a]) \<and>
               add_item_bad d h1 b None = Some (h2, d) \<and> deref h2 d = Some (xs @ [a, b]))) \<and>
   (def_add_item_bad h = (h0, d) \<longrightarrow>
      (\<exists>h1 h2. add_item_bad d h0 a None = Some (h1, d) \<and> deref h1 d = Some [a] \<and>
               add_item_bad d h1 b None = Some (h2, d) \<and> deref h2 d = Some [a, b]))"
proof -
  have g: "add_item_good h item None = Some (h @ [[item]], length h) \<and>
    deref (h @ [[item]]) (length h) = Some [item] \<and> extends h (h @ [[item]])"
    by (simp add: add_item_good_fresh deref_def extends_append)
  have b: "deref h d = Some xs \<longrightarrow>
      (\<exists>h1 h2. add_item_bad d h a None = Some (h1, d) \<and> deref h1 d = Some (xs @ [a]) \<and>
               add_item_bad d h1 b None = Some (h2, d) \<and> deref h2 d = Some (xs @ [a, b]))"
    using add_item_bad_twice [of h d xs a b] by blast
  have i: "def_add_item_bad h = (h0, d) \<longrightarrow>
      (\<exists>h1 h2. add_item_bad d h0 a None = Some (h1, d) \<and> deref h1 d = Some [a] \<and>
               add_item_bad d h1 b None = Some (h2, d) \<and> deref h2 d = Some [a, b])"
  proof
    assume "def_add_item_bad h = (h0, d)"
    then have "deref h0 d = Some []"
      by (auto simp: def_add_item_bad_def alloc_def deref_def)
    from add_item_bad_twice [OF this, of a b] show
      "\<exists>h1 h2. add_item_bad d h0 a None = Some (h1, d) \<and> deref h1 d = Some [a] \<and>
               add_item_bad d h1 b None = Some (h2, d) \<and> deref h2 d = Some [a, b]"
      by simp
  qed
  show ?thesis
    by (rule conjI [OF g conjI [OF b i]])
qed

theorem add_item_defaults_witness:
  "def_add_item_bad [] = ([[]], 0) \<and>
   (\<exists>h1 h2. add_item_bad 0 [[]] ''apple'' None = Some (h1, 0) \<and>
            deref h1 0 = Some [''apple''] \<and>
            add_item_bad 0 h1 ''banana'' None = Some (h2, 0) \<and>
            deref h2 0 = Some [''apple'', ''banana'']) \<and>
   (\<exists>h1 h2. add_item_bad 0 [[''kiwi'']] ''apple'' None = Some (h1, 0) \<and>
            deref h1 0 = Some [''kiwi'', ''apple''] \<and>
            add_item_bad 0 h1 ''banana'' None = Some (h2, 0) \<and>
            deref h2 0 = Some [''kiwi'', ''apple'', ''banana'']) \<and>
   add_item_good [[''apple'', ''banana'']] ''cherry'' None =
     Some ([[''apple'', ''banana''], [''cherry'']], 1) \<and>
   add_item_good [[''apple'', ''banana''], [''cherry'']] ''date'' None =
     Some ([[''apple'', ''banana''], [''cherry''], [''date'']], 2)"
proof -
  have k: "deref [[''kiwi'']] 0 = Some [''kiwi'']"
    by (simp add: deref_def)
  note used = add_item_defaults [where h = "[[''kiwi'']]" and d = 0 and xs = "[''kiwi'']"
      and a = "''apple''" and b = "''banana''",
      THEN conjunct2, THEN conjunct1, rule_format, OF k]
  have u: "\<exists>h1 h2. add_item_bad 0 [[''kiwi'']] ''apple'' None = Some (h1, 0) \<and>
            deref h1 0 = Some [''kiwi'', ''apple''] \<and>
            add_item_bad 0 h1 ''banana'' None = Some (h2, 0) \<and>
            deref h2 0 = Some [''kiwi'', ''apple'', ''banana'']"
    using used by simp
  have d: "def_add_item_bad [] = ([[]], 0)"
    by (simp add: def_add_item_bad_def alloc_def)
  note bad = add_item_defaults [where h = "[]" and d = 0 and ?h0.0 = "[[]]" and a = "''apple''"
      and b = "''banana''",
      THEN conjunct2, THEN conjunct2, rule_format, OF d]
  note cherry = add_item_defaults [where h = "[[''apple'', ''banana'']]" and item = "''cherry''",
      THEN conjunct1, THEN conjunct1]
  note date = add_item_defaults [where h = "[[''apple'', ''banana''], [''cherry'']]" and item = "''date''",
      THEN conjunct1, THEN conjunct1]
  have c: "add_item_good [[''apple'', ''banana'']] ''cherry'' None =
     Some ([[''apple'', ''banana''], [''cherry'']], 1)"
    using cherry by simp
  have e: "add_item_good [[''apple'', ''banana''], [''cherry'']] ''date'' None =
     Some ([[''apple'', ''banana''], [''cherry''], [''date'']], 2)"
    using date by simp
  from d bad u c e show ?thesis by (intro conjI)
qed

text \<open>
  C10. For a list of log entries, \<open>analyze_logs\<close> returns a dictionary that maps each
  level string to the number of entries whose \<open>"level"\<close> key holds that string, the
  entries without a \<open>"level"\<close> key being counted under \<open>"UNKNOWN"\<close>; a string that
  no entry is counted under is no key. The values of the dictionary sum to the length of the
  list, none of them is 0, and no key occurs twice.
\<close>

theorem analyze_logs_counts:
  assumes "deref h logs = Some (EntryList rs)"
    and "list_all2 (\<lambda>r d. deref h r = Some (Entry d)) rs ds"
  shows "\<exists>h' res c.
     analyze_logs h logs = Some (h', res) \<and> deref h' res = Some (Counts c) \<and>
     (\<forall>l. lookup c (VStr l) =
        (if filter (\<lambda>d. d ''level'' = Some (VStr l) \<or> l = ''UNKNOWN'' \<and> d ''level'' = None) ds = []
         then None
         else Some (int (length (filter
                (\<lambda>d. d ''level'' = Some (VStr l) \<or> l = ''UNKNOWN'' \<and> d ''level'' = None) ds))))) \<and>
     sum_list (map snd c) = int (length rs) \<and>
     0 \<notin> snd ` set c \<and>
     distinct (map (as_key \<circ> fst) c)"
proof -
  let ?c = "tally [] (map level_of ds)"
  let ?h = "h @ [Counts ?c, Counts ?c]"
  have run: "analyze_logs h logs = Some (?h, Suc (length h))"
    using assms by (rule analyze_logs_eval)
  have res: "deref ?h (Suc (length h)) = Some (Counts ?c)"
    by (simp add: deref_def nth_append)
  have len: "length rs = length ds"
    using assms(2) by (rule list_all2_lengthD)
  have total: "sum_list (map snd ?c) = int (length rs)"
    by (simp add: sum_tally len)
  have "\<forall>m \<in> snd ` set ?c. 0 < m"
    by (rule positive_tally) simp
  then have pos: "0 \<notin> snd ` set ?c"
    by blast
  have keys: "distinct (map (as_key \<circ> fst) ?c)"
    by (rule distinct_tally) simp
  from run res lookup_tally_levels [of ds] total pos keys show ?thesis
    by blast
qed

theorem analyze_logs_counts_witness:
  "(\<exists>h' res c.
     analyze_logs (map Entry log_data @ [EntryList [0, 1, 2, 3, 4, 5, 6, 7, 8]]) 9 = Some (h', res) \<and>
     deref h' res = Some (Counts c) \<and>
     lookup c (VStr ''INFO'') = Some 4 \<and> lookup c (VStr ''WARNING'') = Some 2 \<and>
     lookup c (VStr ''ERROR'') = Some 2 \<and> lookup c (VStr ''DEBUG'') = Some 1 \<and>
     lookup c (VStr ''UNKNOWN'') = None \<and> sum_list (map snd c) = 9) \<and>
   (\<exists>h' res c.
     analyze_logs [Entry [''level'' \<mapsto> VStr ''INFO''], Entry [''message'' \<mapsto> VStr ''no level''],
                   EntryList [1, 0, 1]] 2 = Some (h', res) \<and>
     deref h' res = Some (Counts c) \<and>
     lookup c (VStr ''INFO'') = Some 1 \<and> lookup c (VStr ''UNKNOWN'') = Some 2 \<and>
     lookup c (VStr ''ERROR'') = None \<and> sum_list (map snd c) = 3)"
proof -
  let ?h = "map Entry log_data @ [EntryList [0, 1, 2, 3, 4, 5, 6, 7, 8]]"
  have logs: "deref ?h 9 = Some (EntryList [0, 1, 2, 3, 4, 5, 6, 7, 8])"
    by (simp add: deref_def log_data_def)
  have entries: "list_all2 (\<lambda>r d. deref ?h r = Some (Entry d)) [0, 1, 2, 3, 4, 5, 6, 7, 8] log_data"
    by (simp add: deref_def log_data_def)
  from analyze_logs_counts [OF logs entries] obtain h' res c where
    run: "analyze_logs ?h 9 = Some (h', res)" "deref h' res = Some (Counts c)" and
    look: "\<And>l. lookup c (VStr l) =
        (if filter (\<lambda>d. d ''level'' = Some (VStr l) \<or> l = ''UNKNOWN'' \<and> d ''level'' = None) log_data = []
         then None
         else Some (int (length (filter
                (\<lambda>d. d ''level'' = Some (VStr l) \<or> l = ''UNKNOWN'' \<and> d ''level'' = None) log_data))))" and
    total: "sum_list (map snd c) = int (length [0::nat, 1, 2, 3, 4, 5, 6, 7, 8])"
    by blast
  have info: "lookup c (VStr ''INFO'') = Some 4"
    unfolding look by (simp add: log_data_def)
  have warning: "lookup c (VStr ''WARNING'') = Some 2"
    unfolding look by (simp add: log_data_def)
  have error: "lookup c (VStr ''ERROR'') = Some 2"
    unfolding look by (simp add: log_data_def)
  have debug: "lookup c (VStr ''DEBUG'') = Some 1"
    unfolding look by (simp add: log_data_def)
  have unknown: "lookup c (VStr ''UNKNOWN'') = None"
    unfolding look by (simp add: log_data_def)
  from total have nine: "sum_list (map snd c) = 9"
    by simp
  from run info warning error debug unknown nine have first: "\<exists>h' res c.
     analyze_logs ?h 9 = Some (h', res) \<and>
     deref h' res = Some (Counts c) \<and>
     lookup c (VStr ''INFO'') = Some 4 \<and> lookup c (VStr ''WARNING'') = Some 2 \<and>
     lookup c (VStr ''ERROR'') = Some 2 \<and> lookup c (VStr ''DEBUG'') = Some 1 \<and>
     lookup c (VStr ''UNKNOWN'') = None \<and> sum_list (map snd c) = 9"
    by blast
  let ?g = "[Entry [''level'' \<mapsto> VStr ''INFO''], Entry [''message'' \<mapsto> VStr ''no level''],
             EntryList [1, 0, 1]]"
  let ?ds = "[[''message'' \<mapsto> VStr ''no level''], [''level'' \<mapsto> VStr ''INFO''],
              [''message'' \<mapsto> VStr ''no level'']]"
  have logs2: "deref ?g 2 = Some (EntryList [1, 0, 1])"
    by (simp add: deref_def)
  have entries2: "list_all2 (\<lambda>r d. deref ?g r = Some (Entry d)) [1, 0, 1] ?ds"
    by (simp add: deref_def)
  from analyze_logs_counts [OF logs2 entries2] obtain h2 res2 c2 where
    run2: "analyze_logs ?g 2 = Some (h2, res2)" "deref h2 res2 = Some (Counts c2)" and
    look2: "\<And>l. lookup c2 (VStr l) =
        (if filter (\<lambda>d. d ''level'' = Some (VStr l) \<or> l = ''UNKNOWN'' \<and> d ''level'' = None) ?ds = []
         then None
         else Some (int (length (filter
                (\<lambda>d. d ''level'' = Some (VStr l) \<or> l = ''UNKNOWN'' \<and> d ''level'' = None) ?ds))))" and
    total2: "sum_list (map snd c2) = int (length [1::nat, 0, 1])"
    by blast
  have info2: "lookup c2 (VStr ''INFO'') = Some 1"
    unfolding look2 by simp
  have unknown2: "lookup c2 (VStr ''UNKNOWN'') = Some 2"
    unfolding look2 by simp
  have error2: "lookup c2 (VStr ''ERROR'') = None"
    unfolding look2 by simp
  from total2 have three: "sum_list (map snd c2) = 3"
    by simp
  from run2 info2 unknown2 error2 three have second: "\<exists>h' res c.
     analyze_logs ?g 2 = Some (h', res) \<and>
     deref h' res = Some (Counts c) \<and>
     lookup c (VStr ''INFO'') = Some 1 \<and> lookup c (VStr ''UNKNOWN'') = Some 2 \<and>
     lookup c (VStr ''ERROR'') = None \<and> sum_list (map snd c) = 3"
    by blast
  from first second show ?thesis
    by (rule conjI)
qed



end
